theory Spec2Isabelle
  imports Complex_Main "HOL-Library.Sublist"
begin

section \<open>Distributed data-parallel training driver (resnet18\_mnist\_ddp.py)\<close>

text \<open>
  The driver is one Python file. Its own code is control flow around library calls:
  reading the scheduler's environment, joining the process group, building two
  sharded data loaders, looping over epochs (train, then evaluate), printing on rank 0,
  saving the parameters and leaving the process group.

  \<^verbatim>\<open>main\<close> is embedded in two parts. \<open>run_main\<close> is the whole function as
  line 156 calls it: it parses the command line (line 95), which can end the process,
  and goes on with \<open>main\<close>, the statements from line 98 on for the parsed arguments
  (the record \<open>args\<close>).
  Every function returns the list of events it performed, in order, together with
  either the exception that ended it or its value. Python floats are modelled as
  reals. The argument parser, the neural network, the optimizer, the dataset files,
  \<^verbatim>\<open>int()\<close>, \<^verbatim>\<open>subprocess.getoutput\<close> and the random permutation are
  black boxes, collected in the record \<open>ext\<close>.
\<close>

subsection \<open>Exceptions, console lines and events\<close>

datatype py_error =
    KeyError string
  | ValueError
  | ZeroDivisionError
  | RuntimeError
  | IndexError
  | SystemExit int   \<comment> \<open>\<^verbatim>\<open>sys.exit(status)\<close>, as the argument parser calls it\<close>

text \<open>The three \<^verbatim>\<open>print\<close> calls of the file, with the values they format.\<close>

datatype line =
    TrainLine int int nat real real
      \<comment> \<open>epoch, batch\_idx * len(data), len(train\_loader.dataset),
          100. * batch\_idx / len(train\_loader), loss.item()\<close>
  | TestLine real nat real real
      \<comment> \<open>test\_loss, correct, length, 100. * correct / length\<close>
  | ElapsedLine real
      \<comment> \<open>elapsed\_time / 1000\<close>

datatype event =
    InitProcessGroup string int int   \<comment> \<open>init\_method, rank, world\_size (line 19)\<close>
  | CudaInit                          \<comment> \<open>line 22\<close>
  | SetDevice int                     \<comment> \<open>line 23\<close>
  | BuildModel int                    \<comment> \<open>lines 133-137, on device local\_rank\<close>
  | RecordStart                       \<comment> \<open>line 140\<close>
  | RecordEnd                         \<comment> \<open>line 144\<close>
  | FetchBatch int nat "nat list"     \<comment> \<open>line 39: epoch, batch\_idx, dataset indices of the batch\<close>
  | ZeroGrad                          \<comment> \<open>line 41\<close>
  | Forward                           \<comment> \<open>line 42\<close>
  | ComputeLoss                       \<comment> \<open>line 43\<close>
  | Backward                          \<comment> \<open>line 44\<close>
  | OptimizerStep                     \<comment> \<open>line 45\<close>
  | TestFetch "nat list"              \<comment> \<open>line 57\<close>
  | TestForward                       \<comment> \<open>line 59\<close>
  | Print line                        \<comment> \<open>lines 47, 66, 147\<close>
  | Save string                       \<comment> \<open>line 151\<close>
  | DestroyProcessGroup               \<comment> \<open>line 26\<close>

type_synonym 'a res = "event list \<times> (py_error + 'a)"

definition ok :: "'a \<Rightarrow> 'a res" where
  "ok a = ([], Inr a)"

definition raise :: "py_error \<Rightarrow> 'a res" where
  "raise e = ([], Inl e)"

definition emit :: "event list \<Rightarrow> unit res" where
  "emit es = (es, Inr ())"

text \<open>Sequencing: an exception in the first part skips the second; events accumulate.\<close>

definition bindE :: "'a res \<Rightarrow> ('a \<Rightarrow> 'b res) \<Rightarrow> 'b res" where
  "bindE r f =
     (case r of
        (es, Inl e) \<Rightarrow> (es, Inl e)
      | (es, Inr a) \<Rightarrow> (case f a of (es', r') \<Rightarrow> (es @ es', r')))"

definition of_sum :: "py_error + 'a \<Rightarrow> 'a res" where
  "of_sum s = ([], s)"

text \<open>
  The status the process ends with: that of a \<^verbatim>\<open>SystemExit\<close>, 1 for any other
  uncaught exception, 0 for a normal return.
\<close>

definition exit_status :: "py_error + 'a \<Rightarrow> int" where
  "exit_status r =
     (case r of Inl (SystemExit status) \<Rightarrow> status | Inl _ \<Rightarrow> 1 | Inr _ \<Rightarrow> 0)"

definition console :: "event list \<Rightarrow> line list" where
  "console es = List.map_filter (\<lambda>e. case e of Print l \<Rightarrow> Some l | _ \<Rightarrow> None) es"

subsection \<open>Arguments and black boxes\<close>

record args =
  batch_size :: int
  test_batch_size :: int
  epochs :: int
  lr :: real
  momentum :: real
  no_cuda :: bool
  seed :: int
  log_interval :: int
  save_model :: bool
  datasetDir :: "string option"

text \<open>
  \<open>'m\<close> is the state of the replica (parameters, gradients, buffers, optimizer state and
  the train/eval mode), \<open>'i\<close> an image, \<open>'l\<close> a label, \<open>'o\<close> the network's output for
  one image.
\<close>

record ('m, 'i, 'l, 'o) ext =
  parse_args :: "string list \<Rightarrow> py_error + args"
    \<comment> \<open>\<^verbatim>\<open>parser.parse_args()\<close> on the command line: the arguments, or the
        \<^verbatim>\<open>SystemExit\<close> of the parser (status 0 after \<^verbatim>\<open>--help\<close>, 2 after an error)\<close>
  py_int :: "string \<Rightarrow> int option"
    \<comment> \<open>\<^verbatim>\<open>int(s)\<close>; \<open>None\<close> is ValueError\<close>
  getoutput :: "string \<Rightarrow> string"
    \<comment> \<open>\<^verbatim>\<open>subprocess.getoutput\<close>\<close>
  mnist :: "string option \<Rightarrow> bool \<Rightarrow> ('i \<times> 'l) list option"
    \<comment> \<open>\<^verbatim>\<open>datasets.MNIST(dir, train=b, download=False)\<close>; \<open>None\<close> is RuntimeError\<close>
  randperm :: "int \<Rightarrow> nat \<Rightarrow> nat list"
    \<comment> \<open>\<^verbatim>\<open>torch.randperm(n, generator=g)\<close> with \<open>g\<close> seeded by the first argument\<close>
  new_model :: "int \<Rightarrow> real \<Rightarrow> real \<Rightarrow> 'm"
    \<comment> \<open>lines 133-137: replica on device local\_rank, SGD with lr and momentum\<close>
  set_train :: "'m \<Rightarrow> 'm"
  set_eval :: "'m \<Rightarrow> 'm"
  zero_grad :: "'m \<Rightarrow> 'm"
  forward :: "'m \<Rightarrow> 'i list \<Rightarrow> 'o list"
  criterion :: "'o list \<Rightarrow> 'l list \<Rightarrow> real"
    \<comment> \<open>\<^verbatim>\<open>criterion(output, target).item()\<close>\<close>
  backward :: "'m \<Rightarrow> 'i list \<Rightarrow> 'l list \<Rightarrow> 'm"
    \<comment> \<open>\<^verbatim>\<open>loss.backward()\<close>: gradients of this batch, averaged over the ranks\<close>
  opt_step :: "'m \<Rightarrow> 'm"
  argmax :: "'o \<Rightarrow> 'l"
  elapsed_ms :: real
    \<comment> \<open>\<^verbatim>\<open>init_start_event.elapsed_time(init_end_event)\<close>\<close>

subsection \<open>The shard provider\<close>

text \<open>
  The shard provider is the library class \<^verbatim>\<open>DistributedSampler\<close>, constructed
  at lines 112 and 122 with the dataset, the world size and the rank; the batches come
  from the library's \<^verbatim>\<open>DataLoader\<close> (lines 113 and 123). Neither implementation
  is among the repository's sources: the definitions of this subsection are modelled
  from the spec (3 and 4.3).
\<close>

text \<open>
  Modelled from the spec: the state of a \<^verbatim>\<open>DistributedSampler\<close>, which is missing
  from the sources. A shard is "deterministic given (rank, world\_size, dataset size,
  shuffling seed)" and "immutable once computed for an epoch".
\<close>

record sampler =
  smp_len :: nat
  smp_replicas :: nat
  smp_rank :: nat
  smp_seed :: int
  smp_epoch :: int
  num_samples :: nat
  total_size :: nat

text \<open>
  Modelled from the spec: the constructor of \<^verbatim>\<open>DistributedSampler\<close>, missing from
  the sources. The rank is "0-indexed, R < W"; every partition gets \<open>ceil(N / W)\<close>
  indices ("partitions as equal in size as possible", "padding needed for even
  division"). The epoch starts at 0.
\<close>

definition DistributedSampler :: "'x list \<Rightarrow> int \<Rightarrow> int \<Rightarrow> int \<Rightarrow> py_error + sampler" where
  "DistributedSampler dataset nrep rk sd =
     (if rk \<ge> nrep \<or> rk < 0 then Inl ValueError
      else
        let w = nat nrep;
            n = (length dataset + w - 1) div w
        in Inr \<lparr>smp_len = length dataset, smp_replicas = w, smp_rank = nat rk,
                 smp_seed = sd, smp_epoch = 0, num_samples = n, total_size = n * w\<rparr>)"

text \<open>
  Modelled from the spec: \<^verbatim>\<open>set_epoch\<close> of \<^verbatim>\<open>DistributedSampler\<close>, missing from
  the sources; it is the one operation that changes a sampler, and \<^verbatim>\<open>main\<close> never
  calls it.
\<close>

definition set_epoch :: "sampler \<Rightarrow> int \<Rightarrow> sampler" where
  "set_epoch s e = s\<lparr>smp_epoch := e\<rparr>"

text \<open>
  Modelled from the spec: the "padding needed for even division" of
  \<^verbatim>\<open>DistributedSampler\<close>, missing from the sources. The shuffled list \<open>p\<close> is
  extended to \<open>T\<close> entries by repeating it from its head.
\<close>

definition pad_list :: "nat list \<Rightarrow> nat \<Rightarrow> nat list" where
  "pad_list p T =
     (let padding_size = T - length p
      in if padding_size \<le> length p then p @ take padding_size p
         else p @ take padding_size
                (concat (replicate ((padding_size + length p - 1) div length p) p)))"

text \<open>
  Modelled from the spec: the shuffled and padded index list of a
  \<^verbatim>\<open>DistributedSampler\<close>, missing from the sources: a permutation of the \<open>N\<close>
  indices drawn from a generator seeded with \<open>seed + epoch\<close>, then padded.
\<close>

definition padded_indices :: "(int \<Rightarrow> nat \<Rightarrow> nat list) \<Rightarrow> sampler \<Rightarrow> nat list" where
  "padded_indices rp s =
     pad_list (rp (smp_seed s + smp_epoch s) (smp_len s)) (total_size s)"

text \<open>The slice \<^verbatim>\<open>xs[start:stop:step]\<close> of Python, for \<open>step > 0\<close>.\<close>

definition slice_step :: "'a list \<Rightarrow> nat \<Rightarrow> nat \<Rightarrow> nat \<Rightarrow> 'a list" where
  "slice_step xs start stop step =
     (let stop' = min stop (length xs)
      in map (\<lambda>k. xs ! (start + k * step)) [0..<(stop' - start + step - 1) div step])"

text \<open>
  Modelled from the spec: iterating a \<^verbatim>\<open>DistributedSampler\<close>, missing from the
  sources. Rank \<open>R\<close> receives the positions \<open>R, R + W, R + 2 W, ...\<close> of the padded
  list: one partition per rank.
\<close>

definition sampler_iter :: "(int \<Rightarrow> nat \<Rightarrow> nat list) \<Rightarrow> sampler \<Rightarrow> nat list" where
  "sampler_iter rp s =
     slice_step (padded_indices rp s) (smp_rank s) (total_size s) (smp_replicas s)"

text \<open>
  Modelled from the spec: the partition \<open>P_R\<close> of rank \<open>R\<close> among \<open>W\<close> for a dataset, as
  \<^verbatim>\<open>main\<close> obtains it (seed 0, epoch 0), and the padding entries shared by the
  partitions.
\<close>

definition shard_of :: "(int \<Rightarrow> nat \<Rightarrow> nat list) \<Rightarrow> 'x list \<Rightarrow> int \<Rightarrow> int \<Rightarrow> nat list" where
  "shard_of rp dataset W R =
     (case DistributedSampler dataset W R 0 of Inl _ \<Rightarrow> [] | Inr s \<Rightarrow> sampler_iter rp s)"

definition padding_of :: "(int \<Rightarrow> nat \<Rightarrow> nat list) \<Rightarrow> 'x list \<Rightarrow> int \<Rightarrow> nat list" where
  "padding_of rp dataset W =
     (case DistributedSampler dataset W 0 0 of Inl _ \<Rightarrow> []
      | Inr s \<Rightarrow> drop (length dataset) (padded_indices rp s))"

text \<open>
  Modelled from the spec: the library's \<^verbatim>\<open>DataLoader\<close>, missing from the sources.
  "Batches within a partition are grouped sequentially": the last batch may be
  shorter; a batch size that is not positive is rejected.
\<close>

record ('i, 'l) loader =
  ld_dataset :: "('i \<times> 'l) list"
  ld_batch_size :: nat
  ld_sampler :: sampler

definition DataLoader :: "('i \<times> 'l) list \<Rightarrow> int \<Rightarrow> sampler \<Rightarrow> py_error + ('i, 'l) loader" where
  "DataLoader dataset bs smp =
     (if bs \<le> 0 then Inl ValueError
      else Inr \<lparr>ld_dataset = dataset, ld_batch_size = nat bs, ld_sampler = smp\<rparr>)"

function chunks :: "nat \<Rightarrow> 'a list \<Rightarrow> 'a list list" where
  "chunks n xs = (if n = 0 \<or> xs = [] then [] else take n xs # chunks n (drop n xs))"
  by pat_completeness auto
termination
  by (relation "measure (\<lambda>(n, xs). length xs)") auto

declare chunks.simps [simp del]

definition loader_iter :: "(int \<Rightarrow> nat \<Rightarrow> nat list) \<Rightarrow> ('i, 'l) loader \<Rightarrow> nat list list" where
  "loader_iter rp ld = chunks (ld_batch_size ld) (sampler_iter rp (ld_sampler ld))"

text \<open>Reading the examples of a batch from the dataset.\<close>

definition fetch :: "'x list \<Rightarrow> nat list \<Rightarrow> 'x list res" where
  "fetch dataset idxs =
     (if list_all (\<lambda>i. i < length dataset) idxs then ok (map (\<lambda>i. dataset ! i) idxs)
      else raise IndexError)"

subsection \<open>dist\_init and cleanup\<close>

definition dist_init :: "string \<Rightarrow> int \<Rightarrow> int \<Rightarrow> int \<Rightarrow> unit res" where
  "dist_init host_addr rank local_rank world_size =
     (let host_addr_full = ''tcp://'' @ host_addr @ '':'' @ ''23456''
      in emit [InitProcessGroup host_addr_full rank world_size, CudaInit, SetDevice local_rank])"

definition cleanup :: "unit res" where
  "cleanup = emit [DestroyProcessGroup]"

subsection \<open>train\<close>

fun train_loop ::
  "('m, 'i, 'l, 'o) ext \<Rightarrow> args \<Rightarrow> ('i, 'l) loader \<Rightarrow> nat \<Rightarrow> int \<Rightarrow> int \<Rightarrow>
   (nat \<times> nat list) list \<Rightarrow> 'm \<Rightarrow> 'm res" where
  "train_loop X a ld nb epoch rank [] m = ok m"
| "train_loop X a ld nb epoch rank ((batch_idx, idxs) # rest) m =
     bindE (emit [FetchBatch epoch batch_idx idxs]) (\<lambda>_.
     bindE (fetch (ld_dataset ld) idxs) (\<lambda>batch.
     let data = map fst batch;
         target = map snd batch;
         m1 = zero_grad X m;
         output = forward X m1 data;
         loss = criterion X output target;
         m2 = backward X m1 data target;
         m3 = opt_step X m2
     in
     bindE (emit [ZeroGrad, Forward, ComputeLoss, Backward, OptimizerStep]) (\<lambda>_.
     bindE (if log_interval a = 0 then raise ZeroDivisionError
            else if int batch_idx mod log_interval a = 0 \<and> rank = 0
              then emit [Print (TrainLine epoch (int batch_idx * int (length data))
                                  (length (ld_dataset ld))
                                  (100 * real batch_idx / real nb) loss)]
              else ok ()) (\<lambda>_.
     train_loop X a ld nb epoch rank rest m3))))"

definition train ::
  "('m, 'i, 'l, 'o) ext \<Rightarrow> args \<Rightarrow> 'm \<Rightarrow> int \<Rightarrow> ('i, 'l) loader \<Rightarrow> int \<Rightarrow> int \<Rightarrow> 'm res" where
  "train X a model local_rank train_loader epoch rank =
     (let batches = loader_iter (randperm X) train_loader
      in train_loop X a train_loader (length batches) epoch rank
           (List.enumerate 0 batches) (set_train X model))"

subsection \<open>test\<close>

fun test_loop ::
  "('m, 'i, 'l, 'o) ext \<Rightarrow> ('i, 'l) loader \<Rightarrow> 'm \<Rightarrow> nat list list \<Rightarrow> real \<Rightarrow> nat \<Rightarrow>
   (real \<times> nat) res" where
  "test_loop X ld m [] test_loss correct = ok (test_loss, correct)"
| "test_loop X ld m (idxs # rest) test_loss correct =
     bindE (emit [TestFetch idxs]) (\<lambda>_.
     bindE (fetch (ld_dataset ld) idxs) (\<lambda>batch.
     let data = map fst batch;
         target = map snd batch;
         output = forward X m data;
         test_loss' = test_loss + criterion X output target;
         pred = map (argmax X) output;
         correct' = correct + length (filter (\<lambda>(p, t). p = t) (zip pred target))
     in
     bindE (emit [TestForward]) (\<lambda>_.
     test_loop X ld m rest test_loss' correct')))"

definition test ::
  "('m, 'i, 'l, 'o) ext \<Rightarrow> args \<Rightarrow> 'm \<Rightarrow> int \<Rightarrow> ('i, 'l) loader \<Rightarrow> int \<Rightarrow> int \<Rightarrow> 'm res" where
  "test X a model local_rank test_loader world_size rank =
     (let m = set_eval X model
      in if world_size = 0 then raise ZeroDivisionError
         else
           let length = real (length (ld_dataset test_loader)) / real_of_int world_size
           in
           bindE (test_loop X test_loader m (loader_iter (randperm X) test_loader) 0 0)
             (\<lambda>(test_loss, correct).
           if length = 0 then raise ZeroDivisionError
           else
             let test_loss' = test_loss / length
             in
             bindE (if rank = 0
                    then emit [Print (TestLine test_loss' correct length
                                        (100 * real correct / length))]
                    else ok ()) (\<lambda>_.
             ok m)))"

subsection \<open>main\<close>

definition environ :: "(string \<rightharpoonup> string) \<Rightarrow> string \<Rightarrow> string res" where
  "environ env k = (case env k of None \<Rightarrow> raise (KeyError k) | Some v \<Rightarrow> ok v)"

definition int_of :: "('m, 'i, 'l, 'o) ext \<Rightarrow> string \<Rightarrow> int res" where
  "int_of X s = (case py_int X s of None \<Rightarrow> raise ValueError | Some i \<Rightarrow> ok i)"

definition load_mnist ::
  "('m, 'i, 'l, 'o) ext \<Rightarrow> string option \<Rightarrow> bool \<Rightarrow> ('i \<times> 'l) list res" where
  "load_mnist X dir tr = (case mnist X dir tr of None \<Rightarrow> raise RuntimeError | Some d \<Rightarrow> ok d)"

fun epoch_loop ::
  "('m, 'i, 'l, 'o) ext \<Rightarrow> args \<Rightarrow> int \<Rightarrow> ('i, 'l) loader \<Rightarrow> ('i, 'l) loader \<Rightarrow> int \<Rightarrow> int \<Rightarrow>
   int list \<Rightarrow> 'm \<Rightarrow> 'm res" where
  "epoch_loop X a local_rank train_loader test_loader world_size rank [] model = ok model"
| "epoch_loop X a local_rank train_loader test_loader world_size rank (epoch # rest) model =
     bindE (train X a model local_rank train_loader epoch rank) (\<lambda>model1.
     bindE (test X a model1 local_rank test_loader world_size rank) (\<lambda>model2.
     epoch_loop X a local_rank train_loader test_loader world_size rank rest model2))"

definition main :: "('m, 'i, 'l, 'o) ext \<Rightarrow> args \<Rightarrow> (string \<rightharpoonup> string) \<Rightarrow> unit res" where
  "main X a env =
     bindE (environ env ''SLURM_PROCID'') (\<lambda>s1.
     bindE (int_of X s1) (\<lambda>rank.
     bindE (environ env ''SLURM_LOCALID'') (\<lambda>s2.
     bindE (int_of X s2) (\<lambda>local_rank.
     bindE (environ env ''SLURM_NTASKS'') (\<lambda>s3.
     bindE (int_of X s3) (\<lambda>world_size.
     bindE (environ env ''SLURM_JOB_NODELIST'') (\<lambda>iplist.
     let ip = getoutput X (''scontrol show hostname '' @ iplist @ '' | head -n1'')
     in
     bindE (dist_init ip rank local_rank world_size) (\<lambda>_.
     bindE (load_mnist X (datasetDir a) True) (\<lambda>train_dataset.
     bindE (of_sum (DistributedSampler train_dataset world_size rank 0)) (\<lambda>train_sampler.
     bindE (of_sum (DataLoader train_dataset (batch_size a) train_sampler)) (\<lambda>train_loader.
     bindE (load_mnist X (datasetDir a) False) (\<lambda>test_dataset.
     bindE (of_sum (DistributedSampler test_dataset world_size rank 0)) (\<lambda>test_sampler.
     bindE (of_sum (DataLoader test_dataset (test_batch_size a) test_sampler)) (\<lambda>test_loader.
     bindE (emit [BuildModel local_rank]) (\<lambda>_.
     let model = new_model X local_rank (lr a) (momentum a)
     in
     bindE (emit [RecordStart]) (\<lambda>_.
     bindE (epoch_loop X a local_rank train_loader test_loader world_size rank
              [1..epochs a] model) (\<lambda>model'.
     bindE (emit [RecordEnd]) (\<lambda>_.
     bindE (if rank = 0 then emit [Print (ElapsedLine (elapsed_ms X / 1000))] else ok ()) (\<lambda>_.
     bindE (if save_model a then emit [Save ''mnist_cnn.pt''] else ok ()) (\<lambda>_.
     cleanup))))))))))))))))))))"

text \<open>\<^verbatim>\<open>main()\<close> as line 156 calls it: line 95, then the statements from line 98 on.\<close>

definition run_main ::
  "('m, 'i, 'l, 'o) ext \<Rightarrow> string list \<Rightarrow> (string \<rightharpoonup> string) \<Rightarrow> unit res" where
  "run_main X argv env = bindE (of_sum (parse_args X argv)) (\<lambda>a. main X a env)"

text \<open>
  The training loader that \<open>main\<close> builds (lines 98, 100, 107 and 112-117), when it
  gets that far.
\<close>

definition builds_train_loader ::
  "('m, 'i, 'l, 'o) ext \<Rightarrow> args \<Rightarrow> (string \<rightharpoonup> string) \<Rightarrow> ('i, 'l) loader \<Rightarrow> bool" where
  "builds_train_loader X a env train_loader \<longleftrightarrow>
     (\<exists>s1 rank s3 world_size train_dataset train_sampler.
        env ''SLURM_PROCID'' = Some s1 \<and> py_int X s1 = Some rank \<and>
        env ''SLURM_NTASKS'' = Some s3 \<and> py_int X s3 = Some world_size \<and>
        mnist X (datasetDir a) True = Some train_dataset \<and>
        DistributedSampler train_dataset world_size rank 0 = Inr train_sampler \<and>
        DataLoader train_dataset (batch_size a) train_sampler = Inr train_loader)"

subsection \<open>A small concrete job\<close>

text \<open>
  Two processes, six training and five evaluation examples, batches of two, two epochs,
  the checkpoint asked for; the parser knows this command line and \<^verbatim>\<open>--help\<close>. An image is
  a number, the network returns its input, the loss of one example is the image's value
  and the criterion averages it over the batch (the default reduction of
  \<^verbatim>\<open>nn.CrossEntropyLoss()\<close>, line 136).
\<close>

definition mean_reduction :: "('o \<Rightarrow> 'l \<Rightarrow> real) \<Rightarrow> 'o list \<Rightarrow> 'l list \<Rightarrow> real" where
  "mean_reduction ce output target =
     sum_list (map (\<lambda>(out, t). ce out t) (zip output target)) / real (length output)"

definition demo_ce :: "nat \<Rightarrow> nat \<Rightarrow> real" where
  "demo_ce out t = real out"

definition demo_args :: args where
  "demo_args = \<lparr>batch_size = 2, test_batch_size = 2, epochs = 2, lr = 1 / 100,
     momentum = 1 / 2, no_cuda = False, seed = 1, log_interval = 10, save_model = True,
     datasetDir = Some ''data''\<rparr>"

definition demo_argv :: "string list" where
  "demo_argv = [''--batch-size'', ''2'', ''--test-batch-size'', ''2'', ''--epochs'', ''2'',
     ''--save-model'', ''--datasetDir'', ''data'']"

definition demo_ext :: "(nat, nat, nat, nat) ext" where
  "demo_ext = \<lparr>
     parse_args = (\<lambda>argv. if argv = [''--help''] then Inl (SystemExit 0)
                           else if argv = demo_argv then Inr demo_args
                           else Inl (SystemExit 2)),
     py_int = (\<lambda>s. if s = ''0'' then Some 0 else if s = ''1'' then Some 1
                    else if s = ''2'' then Some 2 else None),
     getoutput = (\<lambda>c. ''node0''),
     mnist = (\<lambda>d tr. if tr then Some [(1, 1), (9, 0), (1, 0), (9, 9), (4, 0), (7, 7)]
                      else Some [(1, 1), (9, 0), (1, 0), (9, 9), (4, 0)]),
     randperm = (\<lambda>sd n. [0..<n]),
     new_model = (\<lambda>d l mo. 0),
     set_train = (\<lambda>m. m),
     set_eval = (\<lambda>m. m),
     zero_grad = (\<lambda>m. m),
     forward = (\<lambda>m xs. xs),
     criterion = mean_reduction demo_ce,
     backward = (\<lambda>m xs ts. m),
     opt_step = (\<lambda>m. Suc m),
     argmax = (\<lambda>out. out),
     elapsed_ms = 2000 \<rparr>"

definition demo_env :: "string \<Rightarrow> string \<rightharpoonup> string" where
  "demo_env r = [''SLURM_PROCID'' \<mapsto> r, ''SLURM_LOCALID'' \<mapsto> ''0'',
     ''SLURM_NTASKS'' \<mapsto> ''2'', ''SLURM_JOB_NODELIST'' \<mapsto> ''node[0-1]'']"

subsection \<open>The training state machine of the spec\<close>

text \<open>
  The spec (4.5): for epoch = 1..max\_epochs, each batch goes through FETCH\_BATCH,
  FORWARD, COMPUTE\_LOSS, BACKWARD, OPTIMIZER\_STEP; the terminal state is reached when
  all epochs are complete. \<open>spec_trace\<close> is that sequence for \<open>nb\<close> batches
  per epoch.
\<close>

datatype step = FETCH_BATCH int nat | FORWARD | COMPUTE_LOSS | BACKWARD | OPTIMIZER_STEP | TERMINAL

definition spec_trace :: "int \<Rightarrow> nat \<Rightarrow> step list" where
  "spec_trace max_epochs nb =
     concat (map (\<lambda>epoch. concat (map (\<lambda>b. [FETCH_BATCH epoch b, FORWARD, COMPUTE_LOSS, BACKWARD,
                                              OPTIMIZER_STEP]) [0..<nb]))
               [1..max_epochs]) @ [TERMINAL]"

text \<open>
  The state an event stands for. The statement after the epoch loop (line 144) marks
  the terminal state.
\<close>

fun step_of :: "event \<Rightarrow> step option" where
  "step_of (FetchBatch epoch batch_idx idxs) = Some (FETCH_BATCH epoch batch_idx)"
| "step_of Forward = Some FORWARD"
| "step_of ComputeLoss = Some COMPUTE_LOSS"
| "step_of Backward = Some BACKWARD"
| "step_of OptimizerStep = Some OPTIMIZER_STEP"
| "step_of RecordEnd = Some TERMINAL"
| "step_of _ = None"

definition steps_of :: "event list \<Rightarrow> step list" where
  "steps_of es = List.map_filter step_of es"

text \<open>The same on the level of events, for the proofs.\<close>

fun is_step :: "event \<Rightarrow> bool" where
  "is_step (FetchBatch e b i) = True"
| "is_step Forward = True"
| "is_step ComputeLoss = True"
| "is_step Backward = True"
| "is_step OptimizerStep = True"
| "is_step RecordEnd = True"
| "is_step _ = False"

definition train_steps :: "event list \<Rightarrow> event list" where
  "train_steps es = filter is_step es"

definition batch_cycle :: "int \<Rightarrow> nat \<times> nat list \<Rightarrow> event list" where
  "batch_cycle epoch p =
     [FetchBatch epoch (fst p) (snd p), Forward, ComputeLoss, Backward, OptimizerStep]"

definition epoch_steps :: "nat list list \<Rightarrow> int \<Rightarrow> event list" where
  "epoch_steps batches epoch = concat (map (batch_cycle epoch) (List.enumerate 0 batches))"

definition expected_steps :: "int \<Rightarrow> nat list list \<Rightarrow> event list" where
  "expected_steps max_epochs batches =
     concat (map (epoch_steps batches) [1..max_epochs]) @ [RecordEnd]"

text \<open>
  A run conforms to an expected sequence of steps when its steps are a prefix of it,
  and all of it when the run returns.
\<close>

definition conforms :: "event list \<Rightarrow> 'a res \<Rightarrow> bool" where
  "conforms want r \<longleftrightarrow>
     prefix (train_steps (fst r)) want \<and> (\<forall>v. snd r = Inr v \<longrightarrow> train_steps (fst r) = want)"

text \<open>The dataset indices a rank fetched for training in one epoch, in order.\<close>

definition fetched :: "int \<Rightarrow> event list \<Rightarrow> nat list" where
  "fetched epoch es =
     concat (List.map_filter
       (\<lambda>ev. case ev of FetchBatch e b idxs \<Rightarrow> if e = epoch then Some idxs else None
                       | _ \<Rightarrow> None) es)"

subsection \<open>Losses of a batch and of a shard\<close>

text \<open>
  What one pass of the evaluation loop (lines 57-62) adds for one batch: the criterion's
  value and the number of correct predictions.
\<close>

definition batch_loss :: "('m, 'i, 'l, 'o) ext \<Rightarrow> ('i, 'l) loader \<Rightarrow> 'm \<Rightarrow> nat list \<Rightarrow> real" where
  "batch_loss X ld m idxs =
     (let batch = map (\<lambda>i. ld_dataset ld ! i) idxs
      in criterion X (forward X m (map fst batch)) (map snd batch))"

definition batch_correct :: "('m, 'i, 'l, 'o) ext \<Rightarrow> ('i, 'l) loader \<Rightarrow> 'm \<Rightarrow> nat list \<Rightarrow> nat" where
  "batch_correct X ld m idxs =
     (let batch = map (\<lambda>i. ld_dataset ld ! i) idxs
      in length (filter (\<lambda>(p, t). p = t)
           (zip (map (argmax X) (forward X m (map fst batch))) (map snd batch))))"




text \<open>
  The evaluation loader that \<open>main\<close> builds for rank 0 of 2 in the concrete job (five
  examples, so the shard is padded to three), and one over six examples.
\<close>

definition demo_test_loader :: "(nat, nat) loader" where
  "demo_test_loader =
     \<lparr>ld_dataset = [(1, 1), (9, 0), (1, 0), (9, 9), (4, 0)], ld_batch_size = 2,
      ld_sampler = \<lparr>smp_len = 5, smp_replicas = 2, smp_rank = 0, smp_seed = 0, smp_epoch = 0,
                    num_samples = 3, total_size = 6\<rparr>\<rparr>"


subsection \<open>The indices of a run, and a second concrete job\<close>

text \<open>The dataset indices a rank fetched for evaluation, over all epochs, in order.\<close>

definition test_fetched :: "event list \<Rightarrow> nat list" where
  "test_fetched es =
     concat (List.map_filter (\<lambda>ev. case ev of TestFetch idxs \<Rightarrow> Some idxs | _ \<Rightarrow> None) es)"

text \<open>The training loader that \<open>main\<close> builds for rank \<open>r\<close> of 2 in the concrete job.\<close>

definition demo_train_loader :: "int \<Rightarrow> (nat, nat) loader" where
  "demo_train_loader r =
     \<lparr>ld_dataset = [(1, 1), (9, 0), (1, 0), (9, 9), (4, 0), (7, 7)], ld_batch_size = 2,
      ld_sampler = \<lparr>smp_len = 6, smp_replicas = 2, smp_rank = nat r, smp_seed = 0,
                    smp_epoch = 0, num_samples = 3, total_size = 6\<rparr>\<rparr>"

text \<open>
  A second job for rank 1 of 2: other examples in datasets of the same sizes, other
  arguments (seed, batch sizes, epochs, learning rate), another local rank and node,
  another optimizer; the same library permutation.
\<close>

definition demo_ext2 :: "(nat, nat, nat, nat) ext" where
  "demo_ext2 = demo_ext\<lparr>
     mnist := (\<lambda>d tr. if tr then Some [(2, 0), (2, 1), (3, 3), (5, 5), (8, 1), (6, 6)]
                      else Some [(3, 3), (3, 0), (5, 5), (2, 2), (6, 0)]),
     opt_step := (\<lambda>m. m),
     elapsed_ms := 1\<rparr>"

definition demo_args2 :: args where
  "demo_args2 = \<lparr>batch_size = 3, test_batch_size = 1, epochs = 1, lr = 1,
     momentum = 0, no_cuda = True, seed = 7, log_interval = 1, save_model = False,
     datasetDir = Some ''elsewhere''\<rparr>"

definition demo_env2 :: "string \<rightharpoonup> string" where
  "demo_env2 = [''SLURM_PROCID'' \<mapsto> ''1'', ''SLURM_LOCALID'' \<mapsto> ''1'',
     ''SLURM_NTASKS'' \<mapsto> ''2'', ''SLURM_JOB_NODELIST'' \<mapsto> ''gpu7'']"

section \<open>Properties\<close>

subsection \<open>Sequencing\<close>

lemma bindE_ok [simp]: "bindE (ok a) f = f a"
  by (simp add: bindE_def ok_def split: prod.splits)

lemma bindE_raise [simp]: "bindE (raise e) f = raise e"
  by (simp add: bindE_def raise_def)

lemma bindE_Inr_iff:
  "bindE r f = (es, Inr b) \<longleftrightarrow>
     (\<exists>e1 a e2. r = (e1, Inr a) \<and> f a = (e2, Inr b) \<and> es = e1 @ e2)"
  by (cases r; cases "snd r") (auto simp: bindE_def split: prod.splits sum.splits)

lemma fst_bindE:
  "fst (bindE r f) = (case snd r of Inl e \<Rightarrow> fst r | Inr a \<Rightarrow> fst r @ fst (f a))"
  by (cases r) (simp add: bindE_def split: prod.splits sum.splits)

lemma snd_bindE:
  "snd (bindE r f) = (case snd r of Inl e \<Rightarrow> Inl e | Inr a \<Rightarrow> snd (f a))"
  by (cases r) (simp add: bindE_def split: prod.splits sum.splits)

lemma list_all_bindE:
  assumes "list_all Q (fst r)" and "\<And>a. snd r = Inr a \<Longrightarrow> list_all Q (fst (f a))"
  shows "list_all Q (fst (bindE r f))"
  using assms by (simp add: fst_bindE split: sum.splits)

subsection \<open>Which events each function can perform\<close>

lemma train_loop_events:
  assumes "\<And>e b i. Q (FetchBatch e b i)" "Q ZeroGrad" "Q Forward" "Q ComputeLoss" "Q Backward"
    "Q OptimizerStep" "\<And>l. rank = 0 \<Longrightarrow> Q (Print l)"
  shows "list_all Q (fst (train_loop X a ld nb epoch rank bs m))"
proof (induction bs arbitrary: m)
  case Nil
  show ?case by (simp add: ok_def)
next
  case (Cons p bs)
  obtain b i where p: "p = (b, i)" by (cases p)
  show ?case unfolding p train_loop.simps Let_def
    by (intro list_all_bindE Cons.IH) (auto simp: emit_def fetch_def ok_def raise_def assms)
qed

lemma test_loop_events:
  assumes "\<And>i. Q (TestFetch i)" "Q TestForward"
  shows "list_all Q (fst (test_loop X ld m bs acc c))"
proof (induction bs arbitrary: acc c)
  case Nil
  show ?case by (simp add: ok_def)
next
  case (Cons i bs)
  show ?case unfolding test_loop.simps Let_def
    by (intro list_all_bindE Cons.IH) (auto simp: emit_def fetch_def ok_def raise_def assms)
qed

lemma train_events:
  assumes "\<And>e b i. Q (FetchBatch e b i)" "Q ZeroGrad" "Q Forward" "Q ComputeLoss" "Q Backward"
    "Q OptimizerStep" "\<And>l. rank = 0 \<Longrightarrow> Q (Print l)"
  shows "list_all Q (fst (train X a m lrk ld epoch rank))"
  unfolding train_def Let_def by (rule train_loop_events) (fact assms)+

lemma test_events:
  assumes "\<And>i. Q (TestFetch i)" "Q TestForward" "\<And>l. rank = 0 \<Longrightarrow> Q (Print l)"
  shows "list_all Q (fst (test X a m lrk ld w rank))"
  unfolding test_def Let_def
  by (auto simp: raise_def ok_def emit_def assms split: prod.splits
      intro!: list_all_bindE test_loop_events)

lemma epoch_loop_events:
  assumes "\<And>e b i. Q (FetchBatch e b i)" "Q ZeroGrad" "Q Forward" "Q ComputeLoss" "Q Backward"
    "Q OptimizerStep" "\<And>i. Q (TestFetch i)" "Q TestForward" "\<And>l. rank = 0 \<Longrightarrow> Q (Print l)"
  shows "list_all Q (fst (epoch_loop X a lrk trl tel w rank es m))"
proof (induction es arbitrary: m)
  case Nil
  show ?case by (simp add: ok_def)
next
  case (Cons e es)
  show ?case unfolding epoch_loop.simps
    by (intro list_all_bindE Cons.IH train_events test_events) (simp_all add: assms)
qed

lemma main_events:
  assumes "\<And>s r w. Q (InitProcessGroup s r w)" "Q CudaInit" "\<And>d. Q (SetDevice d)"
    "\<And>d. Q (BuildModel d)" "Q RecordStart" "Q RecordEnd"
    "\<And>e b i. Q (FetchBatch e b i)" "Q ZeroGrad" "Q Forward" "Q ComputeLoss" "Q Backward"
    "Q OptimizerStep" "\<And>i. Q (TestFetch i)" "Q TestForward" "Q DestroyProcessGroup"
    "\<And>l r. env ''SLURM_PROCID'' = Some r \<Longrightarrow> py_int X r = Some 0 \<Longrightarrow> Q (Print l)"
    "save_model a \<Longrightarrow> Q (Save ''mnist_cnn.pt'')"
  shows "list_all Q (fst (main X a env))"
  unfolding main_def Let_def
  by (intro list_all_bindE epoch_loop_events)
     (auto simp: environ_def int_of_def load_mnist_def of_sum_def dist_init_def emit_def ok_def
        raise_def cleanup_def assms split: option.splits)

subsection \<open>The checkpoint is written only when asked for\<close>

text \<open>
  C8. Whatever the number of epochs, the environment and the black boxes, and however the
  run ends: when the save-model flag is unset, no event of \<open>main\<close> writes a
  parameter file.
\<close>

theorem no_checkpoint_without_flag:
  "\<not> save_model a \<Longrightarrow> list_all (\<lambda>e. \<forall>p. e \<noteq> Save p) (fst (main X a env))"
  by (rule main_events) simp_all

theorem no_checkpoint_without_flag_witness:
  "\<not> save_model (demo_args\<lparr>save_model := False\<rparr>) \<and>
   list_all (\<lambda>e. \<forall>p. e \<noteq> Save p)
     (fst (main demo_ext (demo_args\<lparr>save_model := False\<rparr>) (demo_env ''0'')))"
  using no_checkpoint_without_flag
    [of "demo_args\<lparr>save_model := False\<rparr>" demo_ext "demo_env ''0''"]
  by simp

subsection \<open>A missing environment value ends the process at once\<close>

text \<open>
  Once the command line is parsed: if one of the four environment values is missing,
  \<open>main\<close> ends with an uncaught exception and has performed no event at all.
\<close>

lemma main_missing_env:
  assumes "env ''SLURM_PROCID'' = None \<or> env ''SLURM_LOCALID'' = None \<or>
           env ''SLURM_NTASKS'' = None \<or> env ''SLURM_JOB_NODELIST'' = None"
  shows "fst (main X a env) = [] \<and> exit_status (snd (main X a env)) \<noteq> 0"
proof -
  let ?ff = "\<lambda>r :: unit res. fst r = [] \<and> exit_status (snd r) \<noteq> 0"
  have step: "?ff (bindE r f)"
    if "fst r = []" "\<And>e. snd r = Inl e \<Longrightarrow> e = ValueError \<or> (\<exists>k. e = KeyError k)"
      "\<And>v. ?ff (f v)"
    for r :: "'z res" and f
  proof (cases "snd r")
    case (Inl e)
    with that(2)[OF Inl] that(1) show ?thesis
      by (auto simp: fst_bindE snd_bindE exit_status_def)
  next
    case (Inr v)
    then show ?thesis using that(1) that(3)[of v] by (simp add: fst_bindE snd_bindE)
  qed
  have stop: "?ff (bindE (environ env k) f)" if "env k = None" for k f
    using that by (simp add: environ_def bindE_def raise_def exit_status_def)
  have e: "fst (environ env k) = []"
    and e': "snd (environ env k) = Inl err \<Longrightarrow> err = ValueError \<or> (\<exists>k. err = KeyError k)"
    for k err
    by (auto simp: environ_def ok_def raise_def split: option.splits)
  have i: "fst (int_of X s) = []"
    and i': "snd (int_of X s) = Inl err \<Longrightarrow> err = ValueError \<or> (\<exists>k. err = KeyError k)"
    for s err
    by (auto simp: int_of_def ok_def raise_def split: option.splits)
  from assms show ?thesis
  proof (elim disjE)
    assume 1: "env ''SLURM_PROCID'' = None"
    show ?thesis unfolding main_def by (rule stop[OF 1])
  next
    assume 2: "env ''SLURM_LOCALID'' = None"
    show ?thesis unfolding main_def
      by (rule step, rule e, erule e', rule step, rule i, erule i', rule stop[OF 2])
  next
    assume 3: "env ''SLURM_NTASKS'' = None"
    show ?thesis unfolding main_def
      by (rule step, rule e, erule e', rule step, rule i, erule i',
          rule step, rule e, erule e', rule step, rule i, erule i', rule stop[OF 3])
  next
    assume 4: "env ''SLURM_JOB_NODELIST'' = None"
    show ?thesis unfolding main_def
      by (rule step, rule e, erule e', rule step, rule i, erule i',
          rule step, rule e, erule e', rule step, rule i, erule i',
          rule step, rule e, erule e', rule step, rule i, erule i', rule stop[OF 4])
  qed
qed

text \<open>
  C5, as amended. If one of the four environment values SLURM\_PROCID, SLURM\_LOCALID,
  SLURM\_NTASKS, SLURM\_JOB\_NODELIST is missing, and the argument parser does not end
  the process with status 0 (as it does after \<^verbatim>\<open>--help\<close>), the process ends with a
  non-zero exit status and has performed no event at all: no process group, no model,
  no console line, and no second attempt.
\<close>

theorem missing_env_fails_fast:
  assumes "env ''SLURM_PROCID'' = None \<or> env ''SLURM_LOCALID'' = None \<or>
           env ''SLURM_NTASKS'' = None \<or> env ''SLURM_JOB_NODELIST'' = None"
    and "parse_args X argv \<noteq> Inl (SystemExit 0)"
  shows "fst (run_main X argv env) = [] \<and> exit_status (snd (run_main X argv env)) \<noteq> 0"
proof (cases "parse_args X argv")
  case (Inl err)
  with assms(2) have "exit_status (Inl err :: py_error + unit) \<noteq> 0"
    by (cases err) (simp_all add: exit_status_def)
  with Inl show ?thesis
    by (simp add: run_main_def of_sum_def bindE_def)
next
  case (Inr a)
  then have "run_main X argv env = main X a env"
    by (simp add: run_main_def of_sum_def bindE_def split: prod.splits)
  with main_missing_env[OF assms(1), of X a] show ?thesis by simp
qed

theorem missing_env_fails_fast_witness:
  "((demo_env ''0'')(''SLURM_NTASKS'' := None)) ''SLURM_NTASKS'' = None \<and>
   parse_args demo_ext demo_argv = Inr demo_args \<and>
   fst (run_main demo_ext demo_argv ((demo_env ''0'')(''SLURM_NTASKS'' := None))) = [] \<and>
   exit_status (snd (run_main demo_ext demo_argv ((demo_env ''0'')(''SLURM_NTASKS'' := None))))
     \<noteq> 0"
proof -
  have p: "parse_args demo_ext demo_argv = Inr demo_args"
    by (simp add: demo_ext_def demo_argv_def)
  have m: "((demo_env ''0'')(''SLURM_NTASKS'' := None)) ''SLURM_NTASKS'' = None"
    by simp
  from p have n: "parse_args demo_ext demo_argv \<noteq> Inl (SystemExit 0)" by simp
  from missing_env_fails_fast
    [of "(demo_env ''0'')(''SLURM_NTASKS'' := None)" demo_ext demo_argv, OF _ n] m p
  show ?thesis by blast
qed

text \<open>
  C5 as stated fails: with \<^verbatim>\<open>--help\<close> on the command line the parser ends the
  process at line 95, before the environment is read, and the exit status is 0 although
  all four environment values are missing.
\<close>

theorem help_exits_zero_without_environment:
  "Map.empty ''SLURM_PROCID'' = (None :: string option) \<and>
   parse_args demo_ext [''--help''] = Inl (SystemExit 0) \<and>
   run_main demo_ext [''--help''] Map.empty = ([], Inl (SystemExit 0)) \<and>
   exit_status (snd (run_main demo_ext [''--help''] Map.empty)) = 0"
  by (simp add: run_main_def of_sum_def bindE_def demo_ext_def exit_status_def)

subsection \<open>Runs that return\<close>

lemma environ_Inr: "environ env k = (e1, Inr v) \<longleftrightarrow> e1 = [] \<and> env k = Some v"
  by (auto simp: environ_def ok_def raise_def split: option.splits)

lemma int_of_Inr: "int_of X s = (e1, Inr v) \<longleftrightarrow> e1 = [] \<and> py_int X s = Some v"
  by (auto simp: int_of_def ok_def raise_def split: option.splits)

lemma load_mnist_Inr: "load_mnist X d t = (e1, Inr v) \<longleftrightarrow> e1 = [] \<and> mnist X d t = Some v"
  by (auto simp: load_mnist_def ok_def raise_def split: option.splits)

lemma of_sum_Inr: "of_sum s = (e1, Inr v) \<longleftrightarrow> e1 = [] \<and> s = Inr v"
  by (auto simp: of_sum_def)

lemma emit_Inr: "emit es = (e1, Inr v) \<longleftrightarrow> e1 = es"
  by (auto simp: emit_def)

lemma ok_Inr: "ok a = (e1, Inr v) \<longleftrightarrow> e1 = [] \<and> v = a"
  by (auto simp: ok_def)

lemma if_emit_Inr: "(if c then emit es else ok ()) = (e1, Inr v) \<longleftrightarrow> e1 = (if c then es else [])"
  by (auto simp: emit_def ok_def)

lemma dist_init_Inr:
  "dist_init h r l w = (e1, Inr v) \<longleftrightarrow>
     e1 = [InitProcessGroup (''tcp://'' @ h @ '':'' @ ''23456'') r w, CudaInit, SetDevice l]"
  by (auto simp: dist_init_def emit_def)

lemma cleanup_Inr: "cleanup = (e1, Inr v) \<longleftrightarrow> e1 = [DestroyProcessGroup]"
  by (auto simp: cleanup_def emit_def)

lemma main_Inr_D:
  assumes "main X a env = (es, Inr u)"
  shows "\<exists>s1 rank s2 local_rank s3 world_size iplist train_dataset train_sampler train_loader
           test_dataset test_sampler test_loader loop_es model'.
     env ''SLURM_PROCID'' = Some s1 \<and> py_int X s1 = Some rank \<and>
     env ''SLURM_LOCALID'' = Some s2 \<and> py_int X s2 = Some local_rank \<and>
     env ''SLURM_NTASKS'' = Some s3 \<and> py_int X s3 = Some world_size \<and>
     env ''SLURM_JOB_NODELIST'' = Some iplist \<and>
     mnist X (datasetDir a) True = Some train_dataset \<and>
     DistributedSampler train_dataset world_size rank 0 = Inr train_sampler \<and>
     DataLoader train_dataset (batch_size a) train_sampler = Inr train_loader \<and>
     mnist X (datasetDir a) False = Some test_dataset \<and>
     DistributedSampler test_dataset world_size rank 0 = Inr test_sampler \<and>
     DataLoader test_dataset (test_batch_size a) test_sampler = Inr test_loader \<and>
     epoch_loop X a local_rank train_loader test_loader world_size rank [1..epochs a]
       (new_model X local_rank (lr a) (momentum a)) = (loop_es, Inr model') \<and>
     es = [InitProcessGroup (''tcp://'' @ getoutput X (''scontrol show hostname '' @ iplist @ '' | head -n1'') @ '':'' @ ''23456'') rank world_size,
           CudaInit, SetDevice local_rank, BuildModel local_rank, RecordStart] @ loop_es @
          [RecordEnd] @ (if rank = 0 then [Print (ElapsedLine (elapsed_ms X / 1000))] else []) @
          (if save_model a then [Save ''mnist_cnn.pt''] else []) @ [DestroyProcessGroup]"
  using assms unfolding main_def Let_def bindE_Inr_iff environ_Inr int_of_Inr load_mnist_Inr
    of_sum_Inr emit_Inr if_emit_Inr dist_init_Inr cleanup_Inr
  apply (elim exE conjE)
  apply (simp only: append_Nil append_Nil2)
  apply hypsubst
  apply (intro exI conjI)
  apply (assumption | rule refl)+
  apply (simp only: append.simps)
  done

subsection \<open>The steps of a run\<close>

lemma conforms_bindE:
  assumes "conforms exp1 r" "\<And>v. snd r = Inr v \<Longrightarrow> conforms exp2 (f v)"
  shows "conforms (exp1 @ exp2) (bindE r f)"
  using assms
  by (cases "snd r") (auto simp: conforms_def fst_bindE snd_bindE train_steps_def prefix_def)

lemma conforms_silent:
  assumes "train_steps (fst r) = []" "\<And>v. snd r = Inr v \<Longrightarrow> conforms want (f v)"
  shows "conforms want (bindE r f)"
proof -
  have "conforms [] r" using assms(1) by (simp add: conforms_def)
  from conforms_bindE[OF this assms(2)] show ?thesis by simp
qed

lemma conforms_last:
  assumes "conforms want r" "\<And>v. snd r = Inr v \<Longrightarrow> conforms [] (f v)"
  shows "conforms want (bindE r f)"
  using conforms_bindE[OF assms] by simp

lemma conforms_emit: "conforms (train_steps es) (emit es)"
  by (simp add: conforms_def emit_def)

lemma conforms_ok: "conforms [] (ok v)"
  by (simp add: conforms_def ok_def train_steps_def)

lemma conforms_raise: "conforms want (raise e)"
  by (simp add: conforms_def raise_def train_steps_def)

lemma train_loop_conforms:
  "conforms (concat (map (batch_cycle epoch) bs)) (train_loop X a ld nb epoch rank bs m)"
proof (induction bs arbitrary: m)
  case Nil
  show ?case by (simp add: conforms_ok)
next
  case (Cons p bs)
  obtain b i where p: "p = (b, i)" by (cases p)
  have 1: "conforms [FetchBatch epoch b i] (emit [FetchBatch epoch b i])"
    using conforms_emit[of "[FetchBatch epoch b i]"] by (simp add: train_steps_def)
  have 2: "conforms [Forward, ComputeLoss, Backward, OptimizerStep]
             (emit [ZeroGrad, Forward, ComputeLoss, Backward, OptimizerStep])"
    using conforms_emit[of "[ZeroGrad, Forward, ComputeLoss, Backward, OptimizerStep]"]
    by (simp add: train_steps_def)
  have 3: "train_steps (fst (fetch d i)) = []" for d :: "'x list"
    by (simp add: fetch_def ok_def raise_def train_steps_def)
  have 4: "train_steps (fst (if log_interval a = 0 then raise ZeroDivisionError
            else if c then emit [Print l] else ok ())) = []" for c l
    by (simp add: ok_def raise_def emit_def train_steps_def)
  have eq: "concat (map (batch_cycle epoch) (p # bs)) =
      [FetchBatch epoch b i] @ ([Forward, ComputeLoss, Backward, OptimizerStep] @
           concat (map (batch_cycle epoch) bs))"
    by (simp add: p batch_cycle_def)
  show ?case
    unfolding eq unfolding p train_loop.simps Let_def
    by (intro conforms_bindE[OF 1] conforms_silent[OF 3] conforms_bindE[OF 2]
          conforms_silent[OF 4] Cons.IH)
qed

lemma train_conforms:
  "conforms (epoch_steps (loader_iter (randperm X) ld) epoch) (train X a m lrk ld epoch rank)"
  unfolding train_def Let_def epoch_steps_def by (rule train_loop_conforms)

lemma train_steps_Nil: "list_all (\<lambda>e. \<not> is_step e) es \<Longrightarrow> train_steps es = []"
  by (induction es) (auto simp: train_steps_def)

lemma test_no_steps: "train_steps (fst (test X a m lrk ld w rank)) = []"
  by (rule train_steps_Nil, rule test_events) simp_all

lemma epoch_loop_conforms:
  "conforms (concat (map (epoch_steps (loader_iter (randperm X) trl)) es))
     (epoch_loop X a lrk trl tel w rank es m)"
proof (induction es arbitrary: m)
  case Nil
  show ?case by (simp add: conforms_ok)
next
  case (Cons e es)
  show ?case unfolding epoch_loop.simps list.map concat.simps
    by (intro conforms_bindE train_conforms conforms_silent[OF test_no_steps] Cons.IH)
qed

lemma main_conforms: "\<exists>batches. conforms (expected_steps (epochs a) batches) (main X a env)"
proof -
  let ?P = "\<lambda>r :: unit res. \<exists>batches. conforms (expected_steps (epochs a) batches) r"
  have quiet: "?P (bindE r f)" if "train_steps (fst r) = []" "\<And>v. snd r = Inr v \<Longrightarrow> ?P (f v)"
    for r :: "'z res" and f
  proof (cases "snd r")
    case (Inl e)
    then have "conforms (expected_steps (epochs a) []) (bindE r f)"
      using that(1) by (simp add: conforms_def fst_bindE snd_bindE)
    then show ?thesis ..
  next
    case (Inr v)
    from that(2)[OF Inr] obtain batches
      where "conforms (expected_steps (epochs a) batches) (f v)" ..
    then have "conforms (expected_steps (epochs a) batches) (bindE r f)"
      using that(1) Inr by (intro conforms_silent) auto
    then show ?thesis ..
  qed
  have e: "train_steps (fst (environ env k)) = []" for k
    by (simp add: environ_def ok_def raise_def train_steps_def split: option.splits)
  have i: "train_steps (fst (int_of X s)) = []" for s
    by (simp add: int_of_def ok_def raise_def train_steps_def split: option.splits)
  have l: "train_steps (fst (load_mnist X d t)) = []" for d t
    by (simp add: load_mnist_def ok_def raise_def train_steps_def split: option.splits)
  have s: "train_steps (fst (of_sum x)) = []" for x :: "py_error + 'y"
    by (simp add: of_sum_def train_steps_def)
  have d: "train_steps (fst (dist_init h r lrk w)) = []" for h r lrk w
    by (simp add: dist_init_def emit_def train_steps_def)
  have b: "train_steps (fst (emit [BuildModel lrk])) = []" for lrk
    by (simp add: emit_def train_steps_def)
  have rs: "train_steps (fst (emit [RecordStart])) = []"
    by (simp add: emit_def train_steps_def)
  have re: "conforms [RecordEnd] (emit [RecordEnd])"
    using conforms_emit[of "[RecordEnd]"] by (simp add: train_steps_def)
  have p: "train_steps (fst (if c then emit [Print ln] else ok ())) = []" for c ln
    by (simp add: emit_def ok_def train_steps_def)
  have sv: "train_steps (fst (if c then emit [Save fn] else ok ())) = []" for c fn
    by (simp add: emit_def ok_def train_steps_def)
  have cl: "conforms [] cleanup"
    by (simp add: cleanup_def emit_def conforms_def train_steps_def)
  have tail: "conforms (expected_steps (epochs a) (loader_iter (randperm X) trl))
      (bindE (emit [BuildModel lrk]) (\<lambda>_.
       bindE (emit [RecordStart]) (\<lambda>_.
       bindE (epoch_loop X a lrk trl tel w r [1..epochs a] m0) (\<lambda>model'.
       bindE (emit [RecordEnd]) (\<lambda>_.
       bindE (if r = 0 then emit [Print ln] else ok ()) (\<lambda>_.
       bindE (if save_model a then emit [Save fn] else ok ()) (\<lambda>_.
       cleanup)))))))" for r lrk w trl tel m0 ln fn
    unfolding expected_steps_def
    by (intro conforms_silent[OF b] conforms_silent[OF rs]
          conforms_bindE[OF epoch_loop_conforms] conforms_last[OF re]
          conforms_silent[OF p] conforms_silent[OF sv] cl)
  show ?thesis
    unfolding main_def Let_def
    by (rule quiet, rule e, rule quiet, rule i, rule quiet, rule e, rule quiet, rule i,
        rule quiet, rule e, rule quiet, rule i, rule quiet, rule e, rule quiet, rule d,
        rule quiet, rule l, rule quiet, rule s, rule quiet, rule s,
        rule quiet, rule l, rule quiet, rule s, rule quiet, rule s,
        rule exI, rule tail)
qed

lemma steps_of_simps [simp]:
  "steps_of [] = []"
  "steps_of (ev # es) = (case step_of ev of None \<Rightarrow> steps_of es | Some s \<Rightarrow> s # steps_of es)"
  "steps_of (xs @ ys) = steps_of xs @ steps_of ys"
  by (simp_all add: steps_of_def List.map_filter_def split: option.splits)

lemma is_step_iff: "is_step e \<longleftrightarrow> step_of e \<noteq> None"
  by (cases e) simp_all

lemma steps_of_train_steps: "steps_of (train_steps es) = steps_of es"
  by (induction es) (auto simp: train_steps_def is_step_iff split: option.splits)

lemma steps_of_epoch_steps:
  "steps_of (epoch_steps batches epoch) =
     concat (map (\<lambda>b. [FETCH_BATCH epoch b, FORWARD, COMPUTE_LOSS, BACKWARD, OPTIMIZER_STEP])
               [0..<length batches])"
proof -
  have "steps_of (concat (map (batch_cycle epoch) (List.enumerate n bs))) =
        concat (map (\<lambda>b. [FETCH_BATCH epoch b, FORWARD, COMPUTE_LOSS, BACKWARD, OPTIMIZER_STEP])
                  [n..<n + length bs])" for n bs
  proof (induction bs arbitrary: n)
    case Nil
    show ?case by simp
  next
    case (Cons x bs)
    have "[n..<n + length (x # bs)] = n # [Suc n..<Suc n + length bs]"
      by (simp add: upt_rec)
    then show ?case using Cons.IH[of "Suc n"] by (simp add: batch_cycle_def)
  qed
  from this[of 0 batches] show ?thesis by (simp add: epoch_steps_def)
qed

lemma steps_of_expected: "steps_of (expected_steps n batches) = spec_trace n (length batches)"
proof -
  have "steps_of (concat (map (epoch_steps batches) es)) =
        concat (map (\<lambda>epoch. concat (map (\<lambda>b. [FETCH_BATCH epoch b, FORWARD, COMPUTE_LOSS,
                  BACKWARD, OPTIMIZER_STEP]) [0..<length batches])) es)" for es
    by (induction es) (simp_all add: steps_of_epoch_steps)
  then show ?thesis by (simp add: expected_steps_def spec_trace_def)
qed

lemma TERMINAL_only_last:
  assumes "prefix xs (spec_trace n nb)" "TERMINAL \<in> set xs"
  shows "xs = spec_trace n nb"
proof -
  let ?body = "concat (map (\<lambda>epoch. concat (map (\<lambda>b. [FETCH_BATCH epoch b, FORWARD,
                  COMPUTE_LOSS, BACKWARD, OPTIMIZER_STEP]) [0..<nb])) [1..n])"
  have body: "TERMINAL \<notin> set ?body" by auto
  from assms(1) have "xs = ?body @ [TERMINAL] \<or> prefix xs ?body"
    by (simp add: spec_trace_def prefix_snoc)
  then show ?thesis
  proof
    assume "xs = ?body @ [TERMINAL]"
    then show ?thesis by (simp add: spec_trace_def)
  next
    assume "prefix xs ?body"
    then have "set xs \<subseteq> set ?body" by (rule set_mono_prefix)
    with assms(2) body show ?thesis by blast
  qed
qed

subsection \<open>The steps of a run, for the loader it built\<close>

lemma conforms_environ:
  assumes "env k = Some v" "conforms want (f v)"
  shows "conforms want (bindE (environ env k) f)"
  using assms by (simp add: environ_def)

lemma conforms_int_of:
  assumes "py_int X s = Some i" "conforms want (f i)"
  shows "conforms want (bindE (int_of X s) f)"
  using assms by (simp add: int_of_def)

lemma conforms_load_mnist:
  assumes "mnist X d t = Some ds" "conforms want (f ds)"
  shows "conforms want (bindE (load_mnist X d t) f)"
  using assms by (simp add: load_mnist_def)

lemma conforms_of_sum:
  assumes "s = Inr v" "conforms want (f v)"
  shows "conforms want (bindE (of_sum s) f)"
  using assms by (simp add: of_sum_def bindE_def split: prod.splits)

lemma no_steps_simple:
  "train_steps (fst (environ env k)) = []"
  "train_steps (fst (int_of X s)) = []"
  "train_steps (fst (load_mnist X d t)) = []"
  "train_steps (fst (of_sum x)) = []"
  "train_steps (fst (dist_init h r lrk w)) = []"
  "train_steps (fst (emit [BuildModel lrk])) = []"
  "train_steps (fst (emit [RecordStart])) = []"
  "train_steps (fst (if c then emit [Print pl] else ok ())) = []"
  "train_steps (fst (if c then emit [Save path] else ok ())) = []"
  by (simp_all add: environ_def int_of_def load_mnist_def of_sum_def dist_init_def emit_def
        ok_def raise_def train_steps_def split: option.splits)

lemma main_tail_conforms:
  "conforms (expected_steps (epochs a) (loader_iter (randperm X) trl))
      (bindE (emit [BuildModel lrk]) (\<lambda>_.
       bindE (emit [RecordStart]) (\<lambda>_.
       bindE (epoch_loop X a lrk trl tel w r [1..epochs a] m0) (\<lambda>model'.
       bindE (emit [RecordEnd]) (\<lambda>_.
       bindE (if r = 0 then emit [Print pl] else ok ()) (\<lambda>_.
       bindE (if save_model a then emit [Save path] else ok ()) (\<lambda>_.
       cleanup)))))))"
proof -
  have re: "conforms [RecordEnd] (emit [RecordEnd])"
    using conforms_emit[of "[RecordEnd]"] by (simp add: train_steps_def)
  have cl: "conforms [] cleanup"
    by (simp add: cleanup_def emit_def conforms_def train_steps_def)
  show ?thesis
    unfolding expected_steps_def
    by (intro conforms_silent[OF no_steps_simple(6)] conforms_silent[OF no_steps_simple(7)]
          conforms_bindE[OF epoch_loop_conforms] conforms_last[OF re]
          conforms_silent[OF no_steps_simple(8)] conforms_silent[OF no_steps_simple(9)] cl)
qed

lemma main_conforms_built:
  assumes "builds_train_loader X a env train_loader"
  shows "conforms (expected_steps (epochs a) (loader_iter (randperm X) train_loader))
           (main X a env)"
proof -
  from assms obtain s1 rank s3 world_size train_dataset train_sampler where
    1: "env ''SLURM_PROCID'' = Some s1" and 2: "py_int X s1 = Some rank" and
    3: "env ''SLURM_NTASKS'' = Some s3" and 4: "py_int X s3 = Some world_size" and
    5: "mnist X (datasetDir a) True = Some train_dataset" and
    6: "DistributedSampler train_dataset world_size rank 0 = Inr train_sampler" and
    7: "DataLoader train_dataset (batch_size a) train_sampler = Inr train_loader"
    unfolding builds_train_loader_def by blast
  show ?thesis
    unfolding main_def Let_def
    by (rule conforms_environ, rule 1, rule conforms_int_of, rule 2,
        rule conforms_silent[OF no_steps_simple(1)], rule conforms_silent[OF no_steps_simple(2)],
        rule conforms_environ, rule 3, rule conforms_int_of, rule 4,
        rule conforms_silent[OF no_steps_simple(1)], rule conforms_silent[OF no_steps_simple(5)],
        rule conforms_load_mnist, rule 5, rule conforms_of_sum, rule 6, rule conforms_of_sum, rule 7,
        rule conforms_silent[OF no_steps_simple(3)], rule conforms_silent[OF no_steps_simple(4)],
        rule conforms_silent[OF no_steps_simple(4)], rule main_tail_conforms)
qed

lemma main_Inr_builds:
  assumes "snd (main X a env) = Inr ()"
  shows "\<exists>train_loader. builds_train_loader X a env train_loader"
proof -
  from assms have "main X a env = (fst (main X a env), Inr ())"
    by (simp add: prod_eq_iff)
  from main_Inr_D[OF this] show ?thesis
    unfolding builds_train_loader_def by blast
qed

lemma snd_Inr_simps:
  "snd (environ env k) = Inr v \<longleftrightarrow> env k = Some v"
  "snd (int_of X s) = Inr i \<longleftrightarrow> py_int X s = Some i"
  "snd (load_mnist X d t) = Inr ds \<longleftrightarrow> mnist X d t = Some ds"
  "snd (of_sum x) = Inr y \<longleftrightarrow> x = Inr y"
  by (auto simp: environ_def int_of_def load_mnist_def of_sum_def ok_def raise_def
      split: option.splits)

lemma main_no_loader_no_steps:
  "train_steps (fst (main X a env)) = [] \<or> (\<exists>ld. builds_train_loader X a env ld)"
proof -
  let ?B = "\<exists>ld. builds_train_loader X a env ld"
  have quiet: "train_steps (fst (bindE r f)) = [] \<or> ?B"
    if "train_steps (fst r) = []" "\<And>v. snd r = Inr v \<Longrightarrow> train_steps (fst (f v)) = [] \<or> ?B"
    for r :: "'z res" and f :: "'z \<Rightarrow> unit res"
  proof (cases "snd r")
    case (Inl e)
    with that(1) show ?thesis by (simp add: fst_bindE)
  next
    case (Inr v)
    with that(1) that(2)[OF Inr] show ?thesis by (auto simp: fst_bindE train_steps_def)
  qed
  show ?thesis
    unfolding main_def Let_def
    apply (rule quiet, rule no_steps_simple(1), rule quiet, rule no_steps_simple(2))
    apply (rule quiet, rule no_steps_simple(1), rule quiet, rule no_steps_simple(2))
    apply (rule quiet, rule no_steps_simple(1), rule quiet, rule no_steps_simple(2))
    apply (rule quiet, rule no_steps_simple(1), rule quiet, rule no_steps_simple(5))
    apply (rule quiet, rule no_steps_simple(3), rule quiet, rule no_steps_simple(4))
    apply (rule quiet, rule no_steps_simple(4))
    apply (rule disjI2)
    apply (simp only: snd_Inr_simps builds_train_loader_def)
    apply blast
    done
qed

subsection \<open>The training loop follows the state machine\<close>

text \<open>
  C6. Let \<open>nb\<close> be the number of batches of the training loader that \<open>main\<close> builds.
  In every run the training steps performed so far are a prefix of the spec's sequence
  for \<open>nb\<close> batches: for epoch 1 to max\_epochs and each of the \<open>nb\<close> batches, fetch,
  forward, compute loss, backward, optimizer step. When \<open>main\<close> returns, the loader
  was built and the whole sequence has been performed; the terminal state appears only
  as its last element, after the last step of the last epoch. A run that does not get
  as far as the training loader performs no step.
\<close>

theorem training_steps_in_order:
  "(\<forall>train_loader. builds_train_loader X a env train_loader \<longrightarrow>
      prefix (steps_of (fst (main X a env)))
        (spec_trace (epochs a) (length (loader_iter (randperm X) train_loader))) \<and>
      (snd (main X a env) = Inr () \<longrightarrow>
         steps_of (fst (main X a env)) =
           spec_trace (epochs a) (length (loader_iter (randperm X) train_loader))) \<and>
      (TERMINAL \<in> set (steps_of (fst (main X a env))) \<longrightarrow>
         steps_of (fst (main X a env)) =
           spec_trace (epochs a) (length (loader_iter (randperm X) train_loader)))) \<and>
   (snd (main X a env) = Inr () \<longrightarrow> (\<exists>train_loader. builds_train_loader X a env train_loader)) \<and>
   ((\<exists>train_loader. builds_train_loader X a env train_loader) \<or> steps_of (fst (main X a env)) = [])"
proof (intro conjI allI impI)
  let ?es = "fst (main X a env)"
  show "\<exists>train_loader. builds_train_loader X a env train_loader"
    if "snd (main X a env) = Inr ()"
    by (rule main_Inr_builds[OF that])
  show "(\<exists>train_loader. builds_train_loader X a env train_loader) \<or> steps_of ?es = []"
  proof -
    from main_no_loader_no_steps[of X a env]
    have "steps_of (train_steps ?es) = [] \<or> (\<exists>ld. builds_train_loader X a env ld)"
      by auto
    then show ?thesis by (auto simp: steps_of_train_steps)
  qed
  fix train_loader
  assume b: "builds_train_loader X a env train_loader"
  let ?nb = "length (loader_iter (randperm X) train_loader)"
  note c = main_conforms_built[OF b]
  from c obtain rest where
    "expected_steps (epochs a) (loader_iter (randperm X) train_loader) = train_steps ?es @ rest"
    by (auto simp: conforms_def prefix_def)
  then have "steps_of (expected_steps (epochs a) (loader_iter (randperm X) train_loader)) =
      steps_of ?es @ steps_of rest"
    by (simp add: steps_of_train_steps)
  then show p: "prefix (steps_of ?es) (spec_trace (epochs a) ?nb)"
    by (simp add: steps_of_expected prefix_def)
  show "steps_of ?es = spec_trace (epochs a) ?nb" if "snd (main X a env) = Inr ()"
  proof -
    from c that have
      "train_steps ?es = expected_steps (epochs a) (loader_iter (randperm X) train_loader)"
      by (simp add: conforms_def)
    then have "steps_of (train_steps ?es) = spec_trace (epochs a) ?nb"
      by (simp add: steps_of_expected)
    then show ?thesis by (simp add: steps_of_train_steps)
  qed
  show "steps_of ?es = spec_trace (epochs a) ?nb" if "TERMINAL \<in> set (steps_of ?es)"
    by (rule TERMINAL_only_last[OF p that])
qed

theorem training_steps_in_order_witness:
  "builds_train_loader demo_ext demo_args (demo_env ''0'') (demo_train_loader 0) \<and>
   snd (main demo_ext demo_args (demo_env ''0'')) = Inr () \<and>
   loader_iter (randperm demo_ext) (demo_train_loader 0) = [[0, 2], [4]] \<and>
   steps_of (fst (main demo_ext demo_args (demo_env ''0''))) = spec_trace (epochs demo_args) 2 \<and>
   spec_trace (epochs demo_args) 2 =
     [FETCH_BATCH 1 0, FORWARD, COMPUTE_LOSS, BACKWARD, OPTIMIZER_STEP,
      FETCH_BATCH 1 1, FORWARD, COMPUTE_LOSS, BACKWARD, OPTIMIZER_STEP,
      FETCH_BATCH 2 0, FORWARD, COMPUTE_LOSS, BACKWARD, OPTIMIZER_STEP,
      FETCH_BATCH 2 1, FORWARD, COMPUTE_LOSS, BACKWARD, OPTIMIZER_STEP, TERMINAL]"
proof -
  have b: "builds_train_loader demo_ext demo_args (demo_env ''0'') (demo_train_loader 0)"
    unfolding builds_train_loader_def
    by (rule exI[of _ "''0''"], rule exI[of _ 0], rule exI[of _ "''2''"], rule exI[of _ 2],
        rule exI[of _ "ld_dataset (demo_train_loader 0)"],
        rule exI[of _ "ld_sampler (demo_train_loader 0)"])
       (simp add: demo_env_def demo_ext_def demo_args_def demo_train_loader_def
          DistributedSampler_def DataLoader_def Let_def)
  have r: "snd (main demo_ext demo_args (demo_env ''0'')) = Inr ()"
    by code_simp
  have l: "loader_iter (randperm demo_ext) (demo_train_loader 0) = [[0, 2], [4]]"
    by code_simp
  have t: "spec_trace (epochs demo_args) 2 =
     [FETCH_BATCH 1 0, FORWARD, COMPUTE_LOSS, BACKWARD, OPTIMIZER_STEP,
      FETCH_BATCH 1 1, FORWARD, COMPUTE_LOSS, BACKWARD, OPTIMIZER_STEP,
      FETCH_BATCH 2 0, FORWARD, COMPUTE_LOSS, BACKWARD, OPTIMIZER_STEP,
      FETCH_BATCH 2 1, FORWARD, COMPUTE_LOSS, BACKWARD, OPTIMIZER_STEP, TERMINAL]"
    by code_simp
  from training_steps_in_order[of demo_ext demo_args "demo_env ''0''"] b r
  have "steps_of (fst (main demo_ext demo_args (demo_env ''0''))) =
      spec_trace (epochs demo_args) (length (loader_iter (randperm demo_ext) (demo_train_loader 0)))"
    by blast
  moreover have "length (loader_iter (randperm demo_ext) (demo_train_loader 0)) = 2"
    unfolding l by simp
  ultimately have s: "steps_of (fst (main demo_ext demo_args (demo_env ''0''))) =
      spec_trace (epochs demo_args) 2"
    by (simp only:)
  from b r l s t show ?thesis by (intro conjI)
qed

subsection \<open>Console lines and fetched indices of a trace\<close>

lemma console_simps [simp]:
  "console [] = []"
  "console (ev # es) = (case ev of Print l \<Rightarrow> l # console es | _ \<Rightarrow> console es)"
  "console (xs @ ys) = console xs @ console ys"
  by (simp_all add: console_def List.map_filter_def split: event.splits)

lemma console_mem: "l \<in> set (console es) \<longleftrightarrow> Print l \<in> set es"
  by (induction es) (auto split: event.splits)

lemma console_Nil_iff: "console es = [] \<longleftrightarrow> list_all (\<lambda>e. \<forall>l. e \<noteq> Print l) es"
  by (induction es) (auto split: event.splits)

lemma fetched_simps [simp]:
  "fetched e [] = []"
  "fetched e (ev # es) =
     (case ev of FetchBatch e' b idxs \<Rightarrow> if e' = e then idxs @ fetched e es else fetched e es
               | _ \<Rightarrow> fetched e es)"
  "fetched e (xs @ ys) = fetched e xs @ fetched e ys"
  by (simp_all add: fetched_def List.map_filter_def split: event.splits)

lemma fetched_train_steps: "fetched e (train_steps es) = fetched e es"
  by (induction es) (auto simp: train_steps_def split: event.splits)

lemma fetched_epoch_steps:
  "fetched e (epoch_steps batches e') = (if e' = e then concat batches else [])"
proof (cases "e' = e")
  case True
  have "fetched e (concat (map (batch_cycle e) (List.enumerate n bs))) = concat bs" for n bs
    by (induction bs arbitrary: n) (simp_all add: batch_cycle_def)
  with True show ?thesis by (simp add: epoch_steps_def)
next
  case False
  then have "fetched e (concat (map (batch_cycle e') (List.enumerate n bs))) = []" for n bs
    by (induction bs arbitrary: n) (simp_all add: batch_cycle_def)
  with False show ?thesis by (simp add: epoch_steps_def)
qed

lemma fetched_epochs:
  assumes "distinct es"
  shows "fetched e (concat (map (epoch_steps batches) es)) =
           (if e \<in> set es then concat batches else [])"
  using assms by (induction es) (auto simp: fetched_epoch_steps)

lemma fetched_expected:
  "fetched e (expected_steps n batches) = (if 1 \<le> e \<and> e \<le> n then concat batches else [])"
  by (simp add: expected_steps_def fetched_epochs)

subsection \<open>Every epoch trains on the same index sequence\<close>

text \<open>
  C9. \<open>main\<close> builds the training sampler once and never advances its epoch (no
  \<^verbatim>\<open>set_epoch\<close> call), and every epoch iterates the same loader. So in a run that
  returns, the sequence of dataset indices fetched for training is the same in any two
  epochs \<open>e\<close> and \<open>e'\<close> between 1 and the configured number of epochs.
\<close>

theorem same_indices_every_epoch:
  assumes "snd (main X a env) = Inr ()"
    and "1 \<le> e" "e \<le> epochs a" "1 \<le> e'" "e' \<le> epochs a"
  shows "fetched e (fst (main X a env)) = fetched e' (fst (main X a env))"
proof -
  from main_conforms[of a X env] obtain batches
    where "conforms (expected_steps (epochs a) batches) (main X a env)" ..
  with assms(1) have "train_steps (fst (main X a env)) = expected_steps (epochs a) batches"
    by (simp add: conforms_def)
  then have "fetched k (fst (main X a env)) = fetched k (expected_steps (epochs a) batches)" for k
    using fetched_train_steps[of k "fst (main X a env)"] by simp
  with assms(2-) show ?thesis by (simp add: fetched_expected)
qed

theorem same_indices_every_epoch_witness:
  "snd (main demo_ext demo_args (demo_env ''1'')) = Inr () \<and>
   (1::int) \<le> 1 \<and> 1 \<le> epochs demo_args \<and> (1::int) \<le> 2 \<and> 2 \<le> epochs demo_args \<and>
   fetched 1 (fst (main demo_ext demo_args (demo_env ''1''))) =
   fetched 2 (fst (main demo_ext demo_args (demo_env ''1'')))"
proof -
  have r: "snd (main demo_ext demo_args (demo_env ''1'')) = Inr ()"
    by code_simp
  have e: "epochs demo_args = 2" by (simp add: demo_args_def)
  from same_indices_every_epoch[OF r, of 1 2] r e show ?thesis by simp
qed

subsection \<open>Only rank 0 prints\<close>

text \<open>
  C2. Let \<open>r\<close> be the global rank read from SLURM\_PROCID. If \<open>r\<close> is not 0, no
  event of \<open>main\<close> is a \<^verbatim>\<open>print\<close>, whatever the arguments and however the run
  ends: no training progress line, no evaluation summary, no elapsed-time line. If
  \<open>r\<close> is 0 and \<open>main\<close> returns, the elapsed-time line is on the console.
\<close>

theorem console_only_on_rank0:
  assumes "env ''SLURM_PROCID'' = Some s" and "py_int X s = Some r"
  shows "(r \<noteq> 0 \<longrightarrow> console (fst (main X a env)) = []) \<and>
         (r = 0 \<and> snd (main X a env) = Inr () \<longrightarrow>
            ElapsedLine (elapsed_ms X / 1000) \<in> set (console (fst (main X a env))))"
proof (intro conjI impI)
  assume "r \<noteq> 0"
  with assms show "console (fst (main X a env)) = []"
    unfolding console_Nil_iff by (intro main_events) simp_all
next
  assume "r = 0 \<and> snd (main X a env) = Inr ()"
  then have r: "r = 0" and "main X a env = (fst (main X a env), Inr ())"
    by (simp_all add: prod_eq_iff)
  from main_Inr_D[OF this(2)] assms r
  have "Print (ElapsedLine (elapsed_ms X / 1000)) \<in> set (fst (main X a env))"
    by auto
  then show "ElapsedLine (elapsed_ms X / 1000) \<in> set (console (fst (main X a env)))"
    by (simp add: console_mem)
qed

theorem console_only_on_rank0_witness:
  "console (fst (main demo_ext demo_args (demo_env ''1''))) = [] \<and>
   ElapsedLine (elapsed_ms demo_ext / 1000) \<in> set (console (fst (main demo_ext demo_args (demo_env ''0''))))"
proof -
  have p1: "py_int demo_ext ''1'' = Some 1" and p0: "py_int demo_ext ''0'' = Some 0"
    by (simp_all add: demo_ext_def)
  have e: "demo_env x ''SLURM_PROCID'' = Some x" for x
    by (simp add: demo_env_def)
  have r: "snd (main demo_ext demo_args (demo_env ''0'')) = Inr ()"
    by code_simp
  from console_only_on_rank0[of "demo_env ''1''" "''1''" demo_ext 1 demo_args, OF e p1]
    console_only_on_rank0[of "demo_env ''0''" "''0''" demo_ext 0 demo_args, OF e p0] r
  show ?thesis by simp
qed

subsection \<open>The checkpoint is written on every rank\<close>

text \<open>
  The write at lines 150-151 is guarded by the flag alone, not by the rank: every run
  that returns with the flag set has written the file.
\<close>

lemma checkpoint_written_on_every_rank:
  assumes "main X a env = (es, Inr u)" and "save_model a"
  shows "Save ''mnist_cnn.pt'' \<in> set es"
  using main_Inr_D[OF assms(1)] assms(2) by auto

text \<open>
  C1 says that only rank 0 writes the checkpoint. In the concrete job with two
  processes, the process with SLURM\_PROCID = 1 returns normally and has written
  \<^verbatim>\<open>mnist_cnn.pt\<close>.
\<close>

theorem checkpoint_written_on_rank_1:
  "demo_env ''1'' ''SLURM_PROCID'' = Some ''1'' \<and>
   py_int demo_ext ''1'' = Some 1 \<and>
   save_model demo_args \<and>
   snd (main demo_ext demo_args (demo_env ''1'')) = Inr () \<and>
   Save ''mnist_cnn.pt'' \<in> set (fst (main demo_ext demo_args (demo_env ''1'')))"
  by code_simp

subsection \<open>Evaluation\<close>

lemma fetch_Inr: "fetch ds idxs = (e1, Inr b) \<longleftrightarrow>
    e1 = [] \<and> list_all (\<lambda>i. i < length ds) idxs \<and> b = map (\<lambda>i. ds ! i) idxs"
  by (auto simp: fetch_def ok_def raise_def)

lemma test_loop_Inr:
  assumes "test_loop X ld m bs acc c = (es, Inr (acc', c'))"
  shows "acc' = acc + sum_list (map (batch_loss X ld m) bs) \<and>
         c' = c + sum_list (map (batch_correct X ld m) bs) \<and>
         console es = [] \<and>
         list_all (list_all (\<lambda>i. i < length (ld_dataset ld))) bs"
  using assms
proof (induction bs arbitrary: acc c es)
  case Nil
  then show ?case by (simp add: ok_def)
next
  case (Cons idxs bs)
  from Cons.prems obtain es' where
    f: "list_all (\<lambda>i. i < length (ld_dataset ld)) idxs" and
    r: "test_loop X ld m bs (acc + batch_loss X ld m idxs) (c + batch_correct X ld m idxs) =
          (es', Inr (acc', c'))" and
    es: "es = [TestFetch idxs] @ [TestForward] @ es'"
    by (auto simp: bindE_Inr_iff emit_Inr fetch_Inr Let_def batch_loss_def batch_correct_def)
  from Cons.IH[OF r] f es show ?case by simp
qed

lemma test_Inr:
  assumes "test X a model local_rank test_loader world_size rank = (es, Inr m')"
  shows "\<exists>es0 acc correct.
      test_loop X test_loader (set_eval X model) (loader_iter (randperm X) test_loader) 0 0 =
        (es0, Inr (acc, correct)) \<and>
      world_size \<noteq> 0 \<and> length (ld_dataset test_loader) \<noteq> 0 \<and>
      es = es0 @ (if rank = 0
                  then [Print (TestLine
                     (acc / (real (length (ld_dataset test_loader)) / real_of_int world_size))
                     correct
                     (real (length (ld_dataset test_loader)) / real_of_int world_size)
                     (100 * real correct /
                       (real (length (ld_dataset test_loader)) / real_of_int world_size)))]
                  else [])"
  using assms unfolding test_def Let_def
  by (auto simp: bindE_Inr_iff emit_Inr ok_Inr raise_def split: if_splits prod.splits)

text \<open>
  C3. When \<open>test\<close> returns on rank 0, its one console line shows the accumulated
  loss divided by \<open>len(dataset) / world_size\<close>, and the same value as the
  denominator of the accuracy. The denominator is computed from the size of the whole
  dataset and the world size: the batches the rank iterated, whatever they are, do not
  enter it.
\<close>

theorem test_divides_by_expected_shard_size:
  assumes "test X a model local_rank test_loader world_size 0 = (es, Inr m')"
  shows "console es =
     [TestLine
        (sum_list (map (batch_loss X test_loader (set_eval X model))
                     (loader_iter (randperm X) test_loader)) /
           (real (length (ld_dataset test_loader)) / real_of_int world_size))
        (sum_list (map (batch_correct X test_loader (set_eval X model))
                     (loader_iter (randperm X) test_loader)))
        (real (length (ld_dataset test_loader)) / real_of_int world_size)
        (100 * real (sum_list (map (batch_correct X test_loader (set_eval X model))
                      (loader_iter (randperm X) test_loader))) /
           (real (length (ld_dataset test_loader)) / real_of_int world_size))]"
proof -
  from test_Inr[OF assms] obtain es0 acc correct where
    l: "test_loop X test_loader (set_eval X model) (loader_iter (randperm X) test_loader) 0 0 =
        (es0, Inr (acc, correct))" and
    es: "es = es0 @ [Print (TestLine
                     (acc / (real (length (ld_dataset test_loader)) / real_of_int world_size))
                     correct
                     (real (length (ld_dataset test_loader)) / real_of_int world_size)
                     (100 * real correct /
                       (real (length (ld_dataset test_loader)) / real_of_int world_size)))]"
    by auto
  from test_loop_Inr[OF l] es show ?thesis by simp
qed

theorem test_divides_by_expected_shard_size_witness:
  "test demo_ext demo_args 0 0 demo_test_loader 2 0 =
     ([TestFetch [0, 2], TestForward, TestFetch [4], TestForward,
       Print (TestLine 2 1 (5 / 2) 40)], Inr 0) \<and>
   console [TestFetch [0, 2], TestForward, TestFetch [4], TestForward,
       Print (TestLine 2 1 (5 / 2) 40)] =
     [TestLine
        (sum_list (map (batch_loss demo_ext demo_test_loader (set_eval demo_ext 0))
                     (loader_iter (randperm demo_ext) demo_test_loader)) /
           (real (length (ld_dataset demo_test_loader)) / real_of_int 2))
        (sum_list (map (batch_correct demo_ext demo_test_loader (set_eval demo_ext 0))
                     (loader_iter (randperm demo_ext) demo_test_loader)))
        (real (length (ld_dataset demo_test_loader)) / real_of_int 2)
        (100 * real (sum_list (map (batch_correct demo_ext demo_test_loader (set_eval demo_ext 0))
                      (loader_iter (randperm demo_ext) demo_test_loader))) /
           (real (length (ld_dataset demo_test_loader)) / real_of_int 2))]"
proof -
  have run: "test demo_ext demo_args 0 0 demo_test_loader 2 0 =
     ([TestFetch [0, 2], TestForward, TestFetch [4], TestForward,
       Print (TestLine 2 1 (5 / 2) 40)], Inr 0)"
    by code_simp
  show ?thesis
    by (rule conjI[OF run test_divides_by_expected_shard_size[OF run]])
qed

subsection \<open>The printed loss and the per-example mean\<close>





subsection \<open>Padding and slicing\<close>

lemma ceil_bounds:
  fixes N w :: nat
  assumes "0 < w"
  shows "N \<le> (N + w - 1) div w * w" and "(N + w - 1) div w * w < N + w"
proof -
  have a: "(N + w - 1) div w * w + (N + w - 1) mod w = N + w - 1"
    by (rule div_mult_mod_eq)
  have b: "(N + w - 1) mod w < w" using assms by simp
  from a b assms show "N \<le> (N + w - 1) div w * w" by linarith
  from a b assms show "(N + w - 1) div w * w < N + w" by linarith
qed

lemma length_concat_replicate: "length (concat (replicate k p)) = k * length p"
  by (induction k) simp_all

lemma length_pad_list:
  assumes "length p \<le> T" and "p = [] \<Longrightarrow> T = 0"
  shows "length (pad_list p T) = T"
proof (cases "T - length p \<le> length p")
  case True
  with assms show ?thesis by (simp add: pad_list_def Let_def)
next
  case False
  with assms(2) have pos: "0 < length p" by (cases p) auto
  from ceil_bounds(1)[OF pos, of "T - length p"]
  have "T - length p \<le> length (concat (replicate ((T - length p + length p - 1) div length p) p))"
    by (simp add: length_concat_replicate)
  with False assms show ?thesis by (simp add: pad_list_def Let_def)
qed

lemma take_pad_list: "take (length p) (pad_list p T) = p"
  by (simp add: pad_list_def Let_def)

lemma nth_pad_list: "j < length p \<Longrightarrow> pad_list p T ! j = p ! j"
  by (simp add: pad_list_def Let_def nth_append)

lemma padded_indices_pad_list:
  "padded_indices rp s = pad_list (rp (smp_seed s + smp_epoch s) (smp_len s)) (total_size s)"
  by (simp add: padded_indices_def)

lemma slice_step_full:
  assumes "r < w" "length xs = n * w"
  shows "slice_step xs r (n * w) w = map (\<lambda>k. xs ! (r + k * w)) [0..<n]"
proof -
  have "(n * w - r + w - 1) div w = n"
  proof (cases n)
    case 0
    with assms(1) show ?thesis by simp
  next
    case (Suc m)
    with assms(1) have "n * w - r + w - 1 = n * w + (w - 1 - r)"
      by (simp add: algebra_simps)
    moreover have "w - 1 - r < w" using assms(1) by simp
    ultimately show ?thesis by simp
  qed
  with assms(2) show ?thesis by (simp add: slice_step_def Let_def)
qed

lemma DistributedSampler_Inr:
  assumes "0 \<le> R" "R < W"
  shows "DistributedSampler ds W R sd =
    Inr \<lparr>smp_len = length ds, smp_replicas = nat W, smp_rank = nat R, smp_seed = sd,
         smp_epoch = 0, num_samples = (length ds + nat W - 1) div nat W,
         total_size = (length ds + nat W - 1) div nat W * nat W\<rparr>"
  using assms by (simp add: DistributedSampler_def Let_def)

lemma length_padded:
  assumes "0 < w" "length p = N"
  shows "length (pad_list p ((N + w - 1) div w * w)) = (N + w - 1) div w * w"
proof (rule length_pad_list)
  show "length p \<le> (N + w - 1) div w * w"
    using ceil_bounds(1)[OF assms(1), of N] assms(2) by simp
  assume "p = []"
  with assms show "(N + w - 1) div w * w = 0" by simp
qed

lemma shard_of_eq:
  assumes "0 \<le> R" "R < W" "length (rp 0 (length ds)) = length ds"
  shows "shard_of rp ds W R =
    map (\<lambda>k. pad_list (rp 0 (length ds)) ((length ds + nat W - 1) div nat W * nat W) !
              (nat R + k * nat W))
      [0..<(length ds + nat W - 1) div nat W]"
proof -
  from assms have w: "0 < nat W" "nat R < nat W" by auto
  have "shard_of rp ds W R =
      slice_step (pad_list (rp (0 + 0) (length ds)) ((length ds + nat W - 1) div nat W * nat W))
        (nat R) ((length ds + nat W - 1) div nat W * nat W) (nat W)"
    unfolding shard_of_def DistributedSampler_Inr[OF assms(1,2)]
    by (simp only: sum.case sampler_iter_def padded_indices_pad_list sampler.select_convs)
  also have "\<dots> = slice_step (pad_list (rp 0 (length ds))
        ((length ds + nat W - 1) div nat W * nat W))
        (nat R) ((length ds + nat W - 1) div nat W * nat W) (nat W)"
    by (simp only: add_0)
  also note slice_step_full[OF w(2) length_padded[OF w(1) assms(3)]]
  finally show ?thesis .
qed

lemma padding_of_eq:
  assumes "1 \<le> W"
  shows "padding_of rp ds W =
    drop (length ds) (pad_list (rp 0 (length ds)) ((length ds + nat W - 1) div nat W * nat W))"
proof -
  from assms have "(0::int) \<le> 0" "0 < W" by auto
  note d = DistributedSampler_Inr[OF this, of ds 0]
  have "padding_of rp ds W =
    drop (length ds) (pad_list (rp (0 + 0) (length ds))
      ((length ds + nat W - 1) div nat W * nat W))"
    unfolding padding_of_def d
    by (simp only: sum.case padded_indices_pad_list sampler.select_convs)
  then show ?thesis by (simp only: add_0)
qed

lemma ceil_div_nat:
  fixes N w :: nat
  assumes "0 < w"
  shows "int ((N + w - 1) div w) = \<lceil>real N / real w\<rceil>"
proof -
  let ?n = "(N + w - 1) div w"
  from ceil_bounds[OF assms, of N] have b: "N \<le> ?n * w" "?n * w < N + w" by auto
  have "real N / real w \<le> real ?n"
    using b(1) assms by (simp add: field_simps) (metis of_nat_le_iff of_nat_mult)
  moreover have "real ?n - 1 < real N / real w"
  proof -
    from b(2) have "real (?n * w) < real (N + w)" by (simp only: of_nat_less_iff)
    then show ?thesis using assms by (simp add: field_simps)
  qed
  ultimately show ?thesis by (intro ceiling_unique[symmetric]) simp_all
qed

subsection \<open>The partitions cover the dataset and are balanced\<close>

text \<open>
  C4. For a dataset of \<open>N\<close> examples, a world size \<open>W \<ge> 1\<close> and a shuffle that is a
  permutation of the \<open>N\<close> indices: every index is in the partition of some rank
  \<open>R < W\<close>; every partition has \<open>floor(N / W)\<close> or \<open>ceil(N / W)\<close> entries (in the
  model always the latter); an index that two different partitions share is one of the
  padding entries, of which there are fewer than \<open>W\<close>.
\<close>

theorem shards_cover_and_balance:
  assumes W: "1 \<le> W"
    and perm: "distinct (rp 0 (length ds))" "set (rp 0 (length ds)) = {0..<length ds}"
  shows "(\<forall>i<length ds. \<exists>R. 0 \<le> R \<and> R < W \<and> i \<in> set (shard_of rp ds W R)) \<and>
         (\<forall>R. 0 \<le> R \<and> R < W \<longrightarrow>
            int (length (shard_of rp ds W R)) = \<lfloor>real (length ds) / real_of_int W\<rfloor> \<or>
            int (length (shard_of rp ds W R)) = \<lceil>real (length ds) / real_of_int W\<rceil>) \<and>
         (\<forall>R R'. 0 \<le> R \<and> R < W \<and> 0 \<le> R' \<and> R' < W \<and> R \<noteq> R' \<longrightarrow>
            set (shard_of rp ds W R) \<inter> set (shard_of rp ds W R') \<subseteq> set (padding_of rp ds W)) \<and>
         length (padding_of rp ds W) < nat W"
proof -
  define N where "N = length ds"
  define w where "w = nat W"
  define n where "n = (N + w - 1) div w"
  define p where "p = rp 0 N"
  define padded where "padded = pad_list p (n * w)"
  from W have w: "0 < w" by (simp add: w_def)
  from perm have lenp: "length p = N"
    unfolding p_def N_def by (metis card_atLeastLessThan diff_zero distinct_card)
  have dist: "distinct p" and setp: "set p = {0..<N}"
    using perm by (simp_all add: p_def N_def)
  have lenpad: "length padded = n * w"
    unfolding padded_def n_def by (rule length_padded[OF w lenp])
  from ceil_bounds[OF w, of N] have b: "N \<le> n * w" "n * w < N + w"
    by (simp_all only: n_def)
  have low: "padded ! j = p ! j" if "j < N" for j
    unfolding padded_def using that lenp by (simp add: nth_pad_list)
  have sh: "shard_of rp ds W R = map (\<lambda>k. padded ! (nat R + k * w)) [0..<n]"
    if "0 \<le> R" "R < W" for R
    unfolding padded_def p_def n_def w_def N_def
    by (rule shard_of_eq[of R W rp ds, OF that lenp[unfolded p_def N_def]])
  have pd: "padding_of rp ds W = drop N padded"
    unfolding padded_def p_def n_def w_def N_def by (rule padding_of_eq[OF W])
  have mem: "x \<in> set (shard_of rp ds W R) \<longleftrightarrow> (\<exists>k<n. x = padded ! (nat R + k * w))"
    if "0 \<le> R" "R < W" for R x
    unfolding sh[OF that] by (auto simp: image_iff)
  have cover: "\<exists>R. 0 \<le> R \<and> R < W \<and> i \<in> set (shard_of rp ds W R)" if "i < N" for i
  proof -
    from that setp have "i \<in> set p" by simp
    then obtain j where j: "j < N" "p ! j = i"
      using lenp by (auto simp: in_set_conv_nth)
    let ?R = "int (j mod w)"
    have R: "0 \<le> ?R" "?R < W"
    proof -
      have "j mod w < w" using w by simp
      then have "int (j mod w) < int w" by (simp only: of_nat_less_iff)
      with W show "?R < W" by (simp add: w_def)
      show "0 \<le> ?R" by simp
    qed
    from j(1) b(1) have "j < n * w" by simp
    then have k: "j div w < n" using w by (simp add: less_mult_imp_div_less)
    have "nat ?R + j div w * w = j" by simp
    with low[OF j(1)] j(2) have "i = padded ! (nat ?R + j div w * w)" by simp
    with k have "i \<in> set (shard_of rp ds W ?R)"
      unfolding mem[OF R] by blast
    with R show ?thesis by blast
  qed
  have size: "int (length (shard_of rp ds W R)) = \<lceil>real (length ds) / real_of_int W\<rceil>"
    if "0 \<le> R" "R < W" for R
  proof -
    have "int (length (shard_of rp ds W R)) = int n" by (simp add: sh[OF that])
    also have "\<dots> = \<lceil>real N / real w\<rceil>" unfolding n_def by (rule ceil_div_nat[OF w])
    also have "real w = real_of_int W" using W by (simp add: w_def)
    finally show ?thesis by (simp only: N_def)
  qed
  have disj: "set (shard_of rp ds W R) \<inter> set (shard_of rp ds W R') \<subseteq> set (padding_of rp ds W)"
    if R: "0 \<le> R" "R < W" and R': "0 \<le> R'" "R' < W" and neq: "R \<noteq> R'" for R R'
  proof
    fix x
    assume "x \<in> set (shard_of rp ds W R) \<inter> set (shard_of rp ds W R')"
    then have "x \<in> set (shard_of rp ds W R)" "x \<in> set (shard_of rp ds W R')" by blast+
    then obtain k k' where
      k: "k < n" "x = padded ! (nat R + k * w)" and
      k': "k' < n" "x = padded ! (nat R' + k' * w)"
      unfolding mem[OF R] mem[OF R'] by blast
    define j where "j = nat R + k * w"
    define j' where "j' = nat R' + k' * w"
    from R R' neq have r: "nat R < w" "nat R' < w" "nat R \<noteq> nat R'"
      by (auto simp: w_def)
    have ne: "j \<noteq> j'"
    proof
      assume "j = j'"
      then have "j mod w = j' mod w" by simp
      with r show False by (simp add: j_def j'_def)
    qed
    have lt: "j < n * w" "j' < n * w"
    proof -
      have "nat R + k * w < w + k * w" using r(1) by simp
      also have "\<dots> = Suc k * w" by simp
      also have "\<dots> \<le> n * w" using k(1) by (intro mult_le_mono1) simp
      finally show "j < n * w" by (simp only: j_def)
      have "nat R' + k' * w < w + k' * w" using r(2) by simp
      also have "\<dots> = Suc k' * w" by simp
      also have "\<dots> \<le> n * w" using k'(1) by (intro mult_le_mono1) simp
      finally show "j' < n * w" by (simp only: j'_def)
    qed
    have xj: "x = padded ! j" "x = padded ! j'"
      using k(2) k'(2) by (simp_all only: j_def j'_def)
    have "N \<le> j \<or> N \<le> j'"
    proof (rule ccontr)
      assume "\<not> (N \<le> j \<or> N \<le> j')"
      then have s: "j < N" "j' < N" by auto
      with xj low have "p ! j = p ! j'" by metis
      with dist s lenp have "j = j'" by (simp add: nth_eq_iff_index_eq)
      with ne show False ..
    qed
    then obtain q where q: "N \<le> q" "q < n * w" "x = padded ! q"
      using lt xj by blast
    then have "x = drop N padded ! (q - N)" "q - N < length (drop N padded)"
      using lenpad by auto
    then have "x \<in> set (drop N padded)" by (metis nth_mem)
    then show "x \<in> set (padding_of rp ds W)" by (simp only: pd)
  qed
  have small: "length (padding_of rp ds W) < nat W"
    using b lenpad by (simp add: pd w_def)
  from cover[unfolded N_def] size disj small show ?thesis by blast
qed

theorem shards_cover_and_balance_witness:
  "(1::int) \<le> 2 \<and>
   distinct (randperm demo_ext 0 (length (ld_dataset demo_test_loader))) \<and>
   set (randperm demo_ext 0 (length (ld_dataset demo_test_loader))) =
     {0..<length (ld_dataset demo_test_loader)} \<and>
   shard_of (randperm demo_ext) (ld_dataset demo_test_loader) 2 0 = [0, 2, 4] \<and>
   shard_of (randperm demo_ext) (ld_dataset demo_test_loader) 2 1 = [1, 3, 0] \<and>
   padding_of (randperm demo_ext) (ld_dataset demo_test_loader) 2 = [0] \<and>
   {0..<length (ld_dataset demo_test_loader)} \<subseteq>
     set (shard_of (randperm demo_ext) (ld_dataset demo_test_loader) 2 0) \<union>
     set (shard_of (randperm demo_ext) (ld_dataset demo_test_loader) 2 1) \<and>
   set (shard_of (randperm demo_ext) (ld_dataset demo_test_loader) 2 0) \<inter>
   set (shard_of (randperm demo_ext) (ld_dataset demo_test_loader) 2 1)
     \<subseteq> set (padding_of (randperm demo_ext) (ld_dataset demo_test_loader) 2)"
proof -
  have W: "(1::int) \<le> 2" by simp
  have d: "distinct (randperm demo_ext 0 (length (ld_dataset demo_test_loader)))"
    by (simp add: demo_ext_def)
  have s: "set (randperm demo_ext 0 (length (ld_dataset demo_test_loader))) =
     {0..<length (ld_dataset demo_test_loader)}"
    by (simp add: demo_ext_def)
  have 0: "shard_of (randperm demo_ext) (ld_dataset demo_test_loader) 2 0 = [0, 2, 4]"
    by code_simp
  have 1: "shard_of (randperm demo_ext) (ld_dataset demo_test_loader) 2 1 = [1, 3, 0]"
    by code_simp
  have p: "padding_of (randperm demo_ext) (ld_dataset demo_test_loader) 2 = [0]"
    by code_simp
  note t = shards_cover_and_balance
    [of 2 "randperm demo_ext" "ld_dataset demo_test_loader", OF W d s]
  have c: "{0..<length (ld_dataset demo_test_loader)} \<subseteq>
     set (shard_of (randperm demo_ext) (ld_dataset demo_test_loader) 2 0) \<union>
     set (shard_of (randperm demo_ext) (ld_dataset demo_test_loader) 2 1)"
  proof
    fix i
    assume "i \<in> {0..<length (ld_dataset demo_test_loader)}"
    then have "i < length (ld_dataset demo_test_loader)" by simp
    with t obtain R :: int where R: "0 \<le> R" "R < 2"
      "i \<in> set (shard_of (randperm demo_ext) (ld_dataset demo_test_loader) 2 R)"
      by blast
    from R(1,2) have "R = 0 \<or> R = 1" by linarith
    with R(3) show "i \<in> set (shard_of (randperm demo_ext) (ld_dataset demo_test_loader) 2 0) \<union>
        set (shard_of (randperm demo_ext) (ld_dataset demo_test_loader) 2 1)"
      by blast
  qed
  from t have "(0::int) \<le> 0 \<and> (0::int) < 2 \<and> (0::int) \<le> 1 \<and> (1::int) < 2 \<and> (0::int) \<noteq> 1 \<longrightarrow>
    set (shard_of (randperm demo_ext) (ld_dataset demo_test_loader) 2 0) \<inter>
    set (shard_of (randperm demo_ext) (ld_dataset demo_test_loader) 2 1)
     \<subseteq> set (padding_of (randperm demo_ext) (ld_dataset demo_test_loader) 2)"
    by blast
  then have i: "set (shard_of (randperm demo_ext) (ld_dataset demo_test_loader) 2 0) \<inter>
    set (shard_of (randperm demo_ext) (ld_dataset demo_test_loader) 2 1)
     \<subseteq> set (padding_of (randperm demo_ext) (ld_dataset demo_test_loader) 2)"
    by simp
  from W d s 0 1 p c i show ?thesis by (intro conjI)
qed

subsection \<open>The indices that a run fetches\<close>

lemma test_fetched_simps [simp]:
  "test_fetched [] = []"
  "test_fetched (ev # es) =
     (case ev of TestFetch idxs \<Rightarrow> idxs @ test_fetched es | _ \<Rightarrow> test_fetched es)"
  "test_fetched (xs @ ys) = test_fetched xs @ test_fetched ys"
  by (simp_all add: test_fetched_def List.map_filter_def split: event.splits)

lemma test_fetched_Nil: "list_all (\<lambda>e. \<forall>i. e \<noteq> TestFetch i) es \<Longrightarrow> test_fetched es = []"
  by (induction es) (auto split: event.splits)

lemma concat_chunks: "0 < n \<Longrightarrow> concat (chunks n xs) = xs"
proof (induction n xs rule: chunks.induct)
  case (1 n xs)
  show ?case
  proof (cases "xs = []")
    case True
    then show ?thesis by (subst chunks.simps) simp
  next
    case False
    with 1 show ?thesis by (subst chunks.simps) simp
  qed
qed

lemma test_loop_fetched:
  assumes "test_loop X ld m bs acc c = (es, Inr v)"
  shows "test_fetched es = concat bs"
  using assms
proof (induction bs arbitrary: acc c es)
  case Nil
  then show ?case by (simp add: ok_def)
next
  case (Cons idxs bs)
  from Cons.prems obtain es' acc' c' where
    r: "test_loop X ld m bs acc' c' = (es', Inr v)" and
    es: "es = [TestFetch idxs] @ [TestForward] @ es'"
    by (auto simp: bindE_Inr_iff emit_Inr fetch_Inr Let_def)
  from Cons.IH[OF r] es show ?case by simp
qed

lemma test_run_fetched:
  assumes "test X a model lrk ld w rank = (es, Inr m')"
  shows "test_fetched es = concat (loader_iter (randperm X) ld)"
proof -
  from test_Inr[OF assms] obtain es0 acc correct tl where
    l: "test_loop X ld (set_eval X model) (loader_iter (randperm X) ld) 0 0 =
        (es0, Inr (acc, correct))" and
    es: "es = es0 @ tl" and tl: "tl = [] \<or> (\<exists>pl. tl = [Print pl])"
    by (cases "rank = 0") auto
  from tl have "test_fetched tl = []" by auto
  with test_loop_fetched[OF l] es show ?thesis by simp
qed

lemma train_no_test_fetch: "test_fetched (fst (train X a m lrk ld epoch rank)) = []"
  by (rule test_fetched_Nil, rule train_events) simp_all

lemma epoch_loop_test_fetched:
  assumes "epoch_loop X a lrk trl tel w rank es m = (evs, Inr m')"
  shows "test_fetched evs = concat (replicate (length es) (concat (loader_iter (randperm X) tel)))"
  using assms
proof (induction es arbitrary: m evs)
  case Nil
  then show ?case by (simp add: ok_def)
next
  case (Cons e es)
  from Cons.prems obtain e1 m1 e2 m2 e3 where
    tr: "train X a m lrk trl e rank = (e1, Inr m1)" and
    te: "test X a m1 lrk tel w rank = (e2, Inr m2)" and
    r: "epoch_loop X a lrk trl tel w rank es m2 = (e3, Inr m')" and
    evs: "evs = e1 @ e2 @ e3"
    by (auto simp: bindE_Inr_iff)
  from train_no_test_fetch[of X a m lrk trl e rank] tr have "test_fetched e1 = []" by simp
  with test_run_fetched[OF te] Cons.IH[OF r] evs show ?case by simp
qed

lemma loader_iter_concat:
  assumes "DataLoader ds bs smp = Inr ld"
  shows "concat (loader_iter rp ld) = sampler_iter rp smp"
proof -
  from assms have "0 < ld_batch_size ld" "ld_sampler ld = smp"
    by (auto simp: DataLoader_def split: if_splits)
  then show ?thesis by (simp add: loader_iter_def concat_chunks)
qed

lemma shard_of_sampler:
  assumes "DistributedSampler ds W R 0 = Inr smp"
  shows "shard_of rp ds W R = sampler_iter rp smp"
  using assms by (simp add: shard_of_def)

lemma shard_of_length_cong:
  assumes "length ds = length ds'"
  shows "shard_of rp ds W R = shard_of rp ds' W R"
  using assms by (simp add: shard_of_def DistributedSampler_def)

lemma main_shards:
  assumes run: "main X a env = (es, Inr u)"
    and R: "env ''SLURM_PROCID'' = Some s1" "py_int X s1 = Some R"
    and W: "env ''SLURM_NTASKS'' = Some s3" "py_int X s3 = Some W"
    and ds: "mnist X (datasetDir a) True = Some ds" "mnist X (datasetDir a) False = Some tds"
  shows "(1 \<le> e \<and> e \<le> epochs a \<longrightarrow> fetched e es = shard_of (randperm X) ds W R) \<and>
         test_fetched es = concat (replicate (nat (epochs a)) (shard_of (randperm X) tds W R))"
proof -
  from main_Inr_D[OF run] R W ds obtain lrk iplist smp ld tsmp tld loop_es m' where
    s: "DistributedSampler ds W R 0 = Inr smp" and
    l: "DataLoader ds (batch_size a) smp = Inr ld" and
    ts: "DistributedSampler tds W R 0 = Inr tsmp" and
    tl: "DataLoader tds (test_batch_size a) tsmp = Inr tld" and
    loop: "epoch_loop X a lrk ld tld W R [1..epochs a] (new_model X lrk (lr a) (momentum a)) =
             (loop_es, Inr m')" and
    es: "es = [InitProcessGroup (''tcp://'' @ getoutput X (''scontrol show hostname '' @ iplist @ '' | head -n1'') @ '':'' @ ''23456'') R W,
           CudaInit, SetDevice lrk, BuildModel lrk, RecordStart] @ loop_es @
          [RecordEnd] @ (if R = 0 then [Print (ElapsedLine (elapsed_ms X / 1000))] else []) @
          (if save_model a then [Save ''mnist_cnn.pt''] else []) @ [DestroyProcessGroup]"
    by auto
  have b: "builds_train_loader X a env ld"
    unfolding builds_train_loader_def using R W ds(1) s l by blast
  have "fetched e es = shard_of (randperm X) ds W R" if e: "1 \<le> e" "e \<le> epochs a"
  proof -
    from main_conforms_built[OF b] run
    have "train_steps es = expected_steps (epochs a) (loader_iter (randperm X) ld)"
      by (simp add: conforms_def)
    then have "fetched e es = fetched e (expected_steps (epochs a) (loader_iter (randperm X) ld))"
      using fetched_train_steps[of e es] by simp
    also have "\<dots> = concat (loader_iter (randperm X) ld)"
      using e by (simp add: fetched_expected)
    also have "\<dots> = shard_of (randperm X) ds W R"
      by (simp only: loader_iter_concat[OF l] shard_of_sampler[OF s])
    finally show ?thesis .
  qed
  moreover have "test_fetched es =
      concat (replicate (nat (epochs a)) (shard_of (randperm X) tds W R))"
  proof -
    have "test_fetched es = test_fetched loop_es"
      unfolding es by simp
    also have "\<dots> = concat (replicate (length [1..epochs a])
        (concat (loader_iter (randperm X) tld)))"
      by (rule epoch_loop_test_fetched[OF loop])
    also have "concat (loader_iter (randperm X) tld) = shard_of (randperm X) tds W R"
      by (simp only: loader_iter_concat[OF tl] shard_of_sampler[OF ts])
    also have "length [1..epochs a] = nat (epochs a)" by simp
    finally show ?thesis .
  qed
  ultimately show ?thesis by blast
qed

subsection \<open>The shards of a run depend on the dataset size, the world size and the rank only\<close>

text \<open>
  C7. Take two runs of \<open>main\<close> that return, with the same library permutation, the
  same rank \<open>R\<close> and world size \<open>W\<close>, and datasets of the same sizes; everything else
  may differ (the examples, the arguments including \<^verbatim>\<open>--seed\<close> and the batch sizes,
  the local rank, the node list, the network and the optimizer). In every epoch of
  either run the training indices fetched are the same sequence, the partition of rank
  \<open>R\<close> for \<open>(N, W)\<close> and the sampler's seed, which the code leaves at its default; and
  every evaluation pass of either run fetches the partition of rank \<open>R\<close> of the
  evaluation set.
\<close>

theorem shard_deterministic:
  assumes run: "snd (main X a env) = Inr ()" "snd (main X' a' env') = Inr ()"
    and rp: "randperm X' = randperm X"
    and R: "env ''SLURM_PROCID'' = Some s1" "py_int X s1 = Some R"
           "env' ''SLURM_PROCID'' = Some s1'" "py_int X' s1' = Some R"
    and W: "env ''SLURM_NTASKS'' = Some s3" "py_int X s3 = Some W"
           "env' ''SLURM_NTASKS'' = Some s3'" "py_int X' s3' = Some W"
    and ds: "mnist X (datasetDir a) True = Some ds" "mnist X' (datasetDir a') True = Some ds'"
            "length ds' = length ds"
    and tds: "mnist X (datasetDir a) False = Some tds" "mnist X' (datasetDir a') False = Some tds'"
             "length tds' = length tds"
    and e: "1 \<le> e" "e \<le> epochs a" "1 \<le> e'" "e' \<le> epochs a'"
  shows "fetched e (fst (main X a env)) = shard_of (randperm X) ds W R \<and>
         fetched e' (fst (main X' a' env')) = fetched e (fst (main X a env)) \<and>
         test_fetched (fst (main X a env)) =
           concat (replicate (nat (epochs a)) (shard_of (randperm X) tds W R)) \<and>
         test_fetched (fst (main X' a' env')) =
           concat (replicate (nat (epochs a')) (shard_of (randperm X) tds W R))"
proof -
  from run have m: "main X a env = (fst (main X a env), Inr ())"
    and m': "main X' a' env' = (fst (main X' a' env'), Inr ())"
    by (simp_all add: prod_eq_iff)
  note 1 = main_shards[OF m R(1,2) W(1,2) ds(1) tds(1), of e]
  note 2 = main_shards[OF m' R(3,4) W(3,4) ds(2) tds(2), of e']
  have c: "shard_of (randperm X') ds' W R = shard_of (randperm X) ds W R"
    "shard_of (randperm X') tds' W R = shard_of (randperm X) tds W R"
    unfolding rp by (rule shard_of_length_cong, fact)+
  from 1 2 e show ?thesis unfolding c by simp
qed

theorem shard_deterministic_witness:
  "snd (main demo_ext demo_args (demo_env ''1'')) = Inr () \<and>
   snd (main demo_ext2 demo_args2 demo_env2) = Inr () \<and>
   randperm demo_ext2 = randperm demo_ext \<and>
   shard_of (randperm demo_ext) [(1::nat, 1::nat), (9, 0), (1, 0), (9, 9), (4, 0), (7, 7)] 2 1
     = [1, 3, 5] \<and>
   fetched 1 (fst (main demo_ext demo_args (demo_env ''1''))) =
     shard_of (randperm demo_ext) [(1::nat, 1::nat), (9, 0), (1, 0), (9, 9), (4, 0), (7, 7)] 2 1 \<and>
   fetched 1 (fst (main demo_ext2 demo_args2 demo_env2)) =
     fetched 1 (fst (main demo_ext demo_args (demo_env ''1''))) \<and>
   test_fetched (fst (main demo_ext2 demo_args2 demo_env2)) =
     concat (replicate (nat (epochs demo_args2))
       (shard_of (randperm demo_ext) [(1::nat, 1::nat), (9, 0), (1, 0), (9, 9), (4, 0)] 2 1))"
proof -
  have run: "snd (main demo_ext demo_args (demo_env ''1'')) = Inr ()"
    "snd (main demo_ext2 demo_args2 demo_env2) = Inr ()"
    by code_simp+
  have rp: "randperm demo_ext2 = randperm demo_ext"
    by (simp add: demo_ext2_def)
  have R: "demo_env ''1'' ''SLURM_PROCID'' = Some ''1''" "py_int demo_ext ''1'' = Some 1"
    "demo_env2 ''SLURM_PROCID'' = Some ''1''" "py_int demo_ext2 ''1'' = Some 1"
    by (simp_all add: demo_env_def demo_env2_def demo_ext_def demo_ext2_def)
  have W: "demo_env ''1'' ''SLURM_NTASKS'' = Some ''2''" "py_int demo_ext ''2'' = Some 2"
    "demo_env2 ''SLURM_NTASKS'' = Some ''2''" "py_int demo_ext2 ''2'' = Some 2"
    by (simp_all add: demo_env_def demo_env2_def demo_ext_def demo_ext2_def)
  have ds: "mnist demo_ext (datasetDir demo_args) True =
      Some [(1, 1), (9, 0), (1, 0), (9, 9), (4, 0), (7, 7)]"
    "mnist demo_ext2 (datasetDir demo_args2) True =
      Some [(2, 0), (2, 1), (3, 3), (5, 5), (8, 1), (6, 6)]"
    "length [(2::nat, 0::nat), (2, 1), (3, 3), (5, 5), (8, 1), (6, 6)] =
      length [(1::nat, 1::nat), (9, 0), (1, 0), (9, 9), (4, 0), (7, 7)]"
    by (simp_all add: demo_ext_def demo_ext2_def)
  have tds: "mnist demo_ext (datasetDir demo_args) False =
      Some [(1, 1), (9, 0), (1, 0), (9, 9), (4, 0)]"
    "mnist demo_ext2 (datasetDir demo_args2) False =
      Some [(3, 3), (3, 0), (5, 5), (2, 2), (6, 0)]"
    "length [(3::nat, 3::nat), (3, 0), (5, 5), (2, 2), (6, 0)] =
      length [(1::nat, 1::nat), (9, 0), (1, 0), (9, 9), (4, 0)]"
    by (simp_all add: demo_ext_def demo_ext2_def)
  have e: "(1::int) \<le> 1" "1 \<le> epochs demo_args" "1 \<le> epochs demo_args2"
    by (simp_all add: demo_args_def demo_args2_def)
  have v: "shard_of (randperm demo_ext)
      [(1::nat, 1::nat), (9, 0), (1, 0), (9, 9), (4, 0), (7, 7)] 2 1 = [1, 3, 5]"
    by code_simp
  note t = shard_deterministic[OF run rp R W ds tds e(1) e(2) e(1) e(3)]
  from t run rp v show ?thesis by (intro conjI) (simp_all only:)
qed

end
